theory Spec2Isabelle
  imports Complex_Main
begin

section \<open>Numbers\<close>

text \<open>
  The component computes with JavaScript numbers, which are IEEE 754 binary64 values.
  Finite numbers are modelled by their values: quantities that the code keeps integral
  (indices, column and row numbers, column spans, column counts) are \<open>int\<close>, pixel
  quantities are \<open>real\<close>. Every addition, subtraction, multiplication and division of the
  code is followed by the rounding \<open>fl\<close> to the nearest binary64 value, a tie going to the
  even significand; \<open>%\<close>, \<open>Math.floor\<close>, \<open>Math.round\<close>, \<open>Math.max\<close>, \<open>Math.min\<close> and
  the comparisons are exact on binary64 values.

  Outside the model are \<open>NaN\<close>, the infinities and the sign of zero: the inputs are
  finite numbers, a result of magnitude \<open>2\<^sup>1\<^sup>0\<^sup>2\<^sup>4\<close> or more stands for an infinity, and a
  division or a remainder by a column count of \<open>0\<close> (where the code yields \<open>NaN\<close> or an
  infinity) has no meaning here. Every statement below about a value that is computed
  with the column count assumes a column count of at least \<open>1\<close>, and every statement
  about rounded values bounds them far below \<open>2\<^sup>1\<^sup>0\<^sup>2\<^sup>4\<close>.
\<close>

definition pow2 :: "int \<Rightarrow> real" where
  \<comment> \<open>The power \<open>2\<^sup>k\<close> for an integer \<open>k\<close>.\<close>
  "pow2 k = (if 0 \<le> k then 2 ^ nat k else 1 / 2 ^ nat (- k))"

definition binade :: "real \<Rightarrow> int" where
  \<comment> \<open>The exponent \<open>e\<close> with \<open>2\<^sup>e \<le> |x| < 2\<^sup>e\<^sup>+\<^sup>1\<close>, and \<open>-1022\<close> for a subnormal \<open>x\<close>.\<close>
  "binade x = max \<lfloor>log 2 \<bar>x\<bar>\<rfloor> (- 1022)"

definition round_half_even :: "real \<Rightarrow> int" where
  "round_half_even y =
     (if y - of_int \<lfloor>y\<rfloor> < 1 / 2 then \<lfloor>y\<rfloor>
      else if y - of_int \<lfloor>y\<rfloor> > 1 / 2 then \<lfloor>y\<rfloor> + 1
      else if even \<lfloor>y\<rfloor> then \<lfloor>y\<rfloor> else \<lfloor>y\<rfloor> + 1)"

definition fl :: "real \<Rightarrow> real" where
  \<comment> \<open>Rounding to binary64: the nearest multiple of \<open>2\<^sup>e\<^sup>-\<^sup>5\<^sup>2\<close> (a significand of 53
      bits), a tie going to the even multiple.\<close>
  "fl x = (if x = 0 then 0
           else of_int (round_half_even (x / pow2 (binade x - 52))) * pow2 (binade x - 52))"

definition dbl_int :: "int \<Rightarrow> int" where
  \<comment> \<open>The rounding of an integer; every binary64 value from \<open>2\<^sup>5\<^sup>2\<close> on is an integer.\<close>
  "dbl_int n = \<lfloor>fl (of_int n)\<rfloor>"

definition js_add :: "int \<Rightarrow> int \<Rightarrow> int" where
  \<comment> \<open>The operator \<open>+\<close> on integral operands.\<close>
  "js_add a b = dbl_int (a + b)"

definition js_sub :: "int \<Rightarrow> int \<Rightarrow> int" where
  \<comment> \<open>The operator \<open>-\<close> on integral operands.\<close>
  "js_sub a b = dbl_int (a - b)"

definition js_round :: "real \<Rightarrow> int" where
  \<comment> \<open>\<open>Math.round\<close>: the nearest integer, a tie going towards \<open>+\<infinity>\<close>.\<close>
  "js_round x = \<lfloor>x + 1 / 2\<rfloor>"

definition js_floor :: "real \<Rightarrow> int" where
  \<comment> \<open>\<open>Math.floor\<close>.\<close>
  "js_floor x = \<lfloor>x\<rfloor>"

definition js_rem :: "int \<Rightarrow> int \<Rightarrow> int" where
  \<comment> \<open>The operator \<open>%\<close> on integral operands: the remainder of the truncating division,
      with the sign of the dividend. (For a divisor \<open>0\<close> JavaScript yields \<open>NaN\<close>.)\<close>
  "js_rem a b = (if a < 0 then - ((- a) mod \<bar>b\<bar>) else a mod \<bar>b\<bar>)"

definition num :: "real option \<Rightarrow> real" where
  \<comment> \<open>The coercion of a possibly \<open>null\<close> number in an arithmetic expression.\<close>
  "num v = (case v of None \<Rightarrow> 0 | Some r \<Rightarrow> r)"

definition execFunc :: "'a \<Rightarrow> 'a" where
  \<comment> \<open>\<open>execFunc\<close> of \<open>utils.ts\<close> calls its argument when it is a function and returns it
      otherwise; every argument it receives in the component is a number.\<close>
  "execFunc fnc = fnc"

section \<open>Data model\<close>

record ElementSize =
  width :: real
  height :: real

record ElementScroll =
  x :: real
  y :: real

text \<open>
  The fields \<open>elementOffset\<close> and \<open>elementSize\<close> are tested against \<open>null\<close> by the
  code that reads them, so they are optional here.
\<close>

record ContainerData =
  size_cd :: ElementSize
  scroll :: ElementScroll
  elementOffset :: "real option"
  elementSize :: "ElementSize option"

text \<open>
  Modelled from the spec: the declaration of \<open>Item\<close> (\<open>./types\<close>) is not part of the
  sources at hand. An item has an identifier, a natural height and an optional natural
  width, an integer column span, a new-row flag and an opaque rendering payload; the
  field names are those the component reads.
\<close>

record 'p Item =
  id_item :: string
  injected :: 'p
  height :: real
  width :: "real option"
  columnSpan :: int
  newRow :: bool
  renderComponent :: string

record 'p ConfigData =
  windowMargin :: real
  gridGap :: real
  columnCount :: int
  entries :: "'p Item list"

record 'p Cell = "'p Item" +
  columnNumber :: int
  rowNumber :: int
  offset :: real

record 'p LayoutData =
  totalHeight :: real
  cells :: "'p Cell list"


section \<open>Config derivation\<close>

definition getColumnCount :: "real option \<Rightarrow> int" where
  "getColumnCount elementWidth = js_floor (fl (num elementWidth / 250))"

definition getGridGap :: "real option \<Rightarrow> real \<Rightarrow> real" where
  "getGridGap elementWidth windowHeight =
     (if num elementWidth > 720 \<and> windowHeight > 480 then 10 else 5)"

definition getWindowMargin :: "real \<Rightarrow> real" where
  "getWindowMargin windowHeight = of_int (js_round (fl (windowHeight * 1.5)))"

definition getItemRatioHeight :: "real \<Rightarrow> real \<Rightarrow> real \<Rightarrow> real" where
  "getItemRatioHeight h w columnWidth =
     (let imageRatio = fl (h / w) in of_int (js_round (fl (columnWidth * imageRatio))))"

definition getColumnWidth :: "int \<Rightarrow> real \<Rightarrow> real option \<Rightarrow> real option" where
  \<comment> \<open>The column count and the gap are never \<open>null\<close> at the only call site.\<close>
  "getColumnWidth cc gap elementWidth =
     (case elementWidth of
        None \<Rightarrow> None
      | Some w \<Rightarrow>
          (let totalGapSpace = fl (of_int (js_sub cc 1) * gap)
           in Some (of_int (js_round (fl (fl (w - totalGapSpace) / of_int cc))))))"

definition resolve_item :: "real option \<Rightarrow> real \<Rightarrow> 'p Item \<Rightarrow> 'p Item" where
  \<comment> \<open>The callback of \<open>items.map\<close> in \<open>computeConfigData\<close>; \<open>!item.width\<close> holds for
      an unset and for a zero width.\<close>
  "resolve_item columnWidth gap item =
     (case width item of
        None \<Rightarrow> item
      | Some w \<Rightarrow>
          if w = 0 then item
          else
            (let imageWidth = fl (fl (num columnWidth * of_int (columnSpan item))
                                   + fl (gap * of_int (js_sub (columnSpan item) 1)))
             in item\<lparr>height := execFunc (getItemRatioHeight (height item) w imageWidth),
                      width := Some imageWidth\<rparr>))"

definition computeConfigData ::
  "ContainerData option \<Rightarrow> 'p Item list option \<Rightarrow> 'p ConfigData" where
  "computeConfigData containerData items =
     (case (containerData, items) of
        (Some cd, Some its) \<Rightarrow>
          (let elementWidth = (case elementSize cd of
                                 None \<Rightarrow> None
                               | Some es \<Rightarrow> Some (ElementSize.width es));
               wm = execFunc (getWindowMargin (ElementSize.height (size_cd cd)));
               gap = execFunc (getGridGap elementWidth (ElementSize.height (size_cd cd)));
               cc = getColumnCount elementWidth;
               columnWidth = getColumnWidth cc gap elementWidth
           in \<lparr>windowMargin = wm, gridGap = gap, columnCount = cc,
               entries = map (resolve_item columnWidth gap) its\<rparr>)
      | _ \<Rightarrow> \<lparr>windowMargin = 0, gridGap = 0, columnCount = 1, entries = []\<rparr>)"

section \<open>Grid packer\<close>

text \<open>
  The four variables that the callback of \<open>entries.map\<close> in \<open>computeLayoutData\<close>
  reads and assigns.
\<close>

record PackState =
  currentRowNumber :: int
  prevRowsTotalHeight :: real
  currentRowMaxHeight :: real
  columnShift :: int

definition pack_init :: PackState where
  "pack_init = \<lparr>currentRowNumber = 1, prevRowsTotalHeight = 0,
                 currentRowMaxHeight = 0, columnShift = 0\<rparr>"

text \<open>
  The packer is embedded twice. \<open>place_entry\<close>, \<open>layout_cells\<close> and
  \<open>computeLayoutData\<close> compute with ideal integers and reals: they are the packer up to
  the rounding of its arithmetic, and carry the properties that relate the cells of a
  layout to each other. \<open>place_entry_f64\<close>, \<open>layout_cells_f64\<close> and
  \<open>computeLayoutData_f64\<close> further below write the rounding of every operation out, in
  the order in which the code evaluates them; the two agree on the column number, the row
  number and the column span of every cell as long as these computations stay below
  \<open>2\<^sup>5\<^sup>3\<close> (lemma \<open>layout_cells_f64_ideal\<close>).
\<close>

definition place_entry ::
  "'p ConfigData \<Rightarrow> PackState \<Rightarrow> nat \<Rightarrow> 'p Item \<Rightarrow> 'p Cell \<times> PackState" where
  \<comment> \<open>One call of the callback, for the entry at \<open>index\<close>, in ideal arithmetic.\<close>
  "place_entry configData st index entry =
     (let cc = columnCount configData;
          gap = gridGap configData;
          span0 = (if columnSpan entry < 1 then cc else columnSpan entry);
          distanceToRowStart = js_rem (int index + columnShift st) cc;
          shift1 = (if newRow entry \<and> distanceToRowStart \<noteq> 0
                    then columnShift st + (cc - distanceToRowStart)
                    else columnShift st);
          shiftedIndex = int index + shift1;
          colNo = js_rem shiftedIndex cc + 1;
          rowNo = js_floor (of_int shiftedIndex / of_int cc) + 1;
          clip = (colNo + span0 > cc + 1);
          overlapNumber = colNo + span0 - cc - 1;
          overlapRatio = of_int overlapNumber / of_int span0;
          heightRecompute = (if clip then height entry * (1 - overlapRatio) else height entry);
          span1 = (if clip then span0 - overlapNumber else span0);
          shift2 = (if span1 > 1 then shift1 + (span1 - 1) else shift1);
          newRowStarts = (rowNo \<noteq> currentRowNumber st);
          prev1 = (if newRowStarts
                   then prevRowsTotalHeight st + (currentRowMaxHeight st + gap)
                   else prevRowsTotalHeight st);
          max0 = (if newRowStarts then 0 else currentRowMaxHeight st);
          h = of_int (js_round heightRecompute)
      in (\<lparr>id_item = id_item entry, injected = injected entry, height = h,
            width = width entry, columnSpan = span1, newRow = newRow entry,
            renderComponent = renderComponent entry,
            columnNumber = colNo, rowNumber = rowNo, offset = prev1\<rparr>,
          \<lparr>currentRowNumber = (if newRowStarts then rowNo else currentRowNumber st),
            prevRowsTotalHeight = prev1,
            currentRowMaxHeight = max max0 h,
            columnShift = shift2\<rparr>))"

fun layout_cells ::
  "'p ConfigData \<Rightarrow> PackState \<Rightarrow> nat \<Rightarrow> 'p Item list \<Rightarrow> 'p Cell list \<times> PackState" where
  "layout_cells configData st index [] = ([], st)"
| "layout_cells configData st index (entry # rest) =
     (case place_entry configData st index entry of
        (cell, st') \<Rightarrow>
          (case layout_cells configData st' (Suc index) rest of
             (cs, st'') \<Rightarrow> (cell # cs, st'')))"

definition computeLayoutData :: "'p ConfigData option \<Rightarrow> 'p LayoutData" where
  "computeLayoutData configData =
     (case configData of
        None \<Rightarrow> \<lparr>totalHeight = 0, cells = []\<rparr>
      | Some cfg \<Rightarrow>
          (case layout_cells cfg pack_init 0 (entries cfg) of
             (cs, st) \<Rightarrow>
               \<lparr>totalHeight = prevRowsTotalHeight st + currentRowMaxHeight st,
                cells = cs\<rparr>))"

definition place_entry_f64 ::
  "'p ConfigData \<Rightarrow> PackState \<Rightarrow> nat \<Rightarrow> 'p Item \<Rightarrow> 'p Cell \<times> PackState" where
  \<comment> \<open>One call of the callback, for the entry at \<open>index\<close>, every operation rounded:
      \<open>columnNumber + columnSpanRecompute - columnCount - 1\<close> is evaluated from the
      left, \<open>columnShift += e\<close> adds the value of \<open>e\<close> to \<open>columnShift\<close>.\<close>
  "place_entry_f64 configData st index entry =
     (let cc = columnCount configData;
          gap = gridGap configData;
          span0 = (if columnSpan entry < 1 then cc else columnSpan entry);
          distanceToRowStart = js_rem (js_add (int index) (columnShift st)) cc;
          shift1 = (if newRow entry \<and> distanceToRowStart \<noteq> 0
                    then js_add (columnShift st) (js_sub cc distanceToRowStart)
                    else columnShift st);
          shiftedIndex = js_add (int index) shift1;
          colNo = js_add (js_rem shiftedIndex cc) 1;
          rowNo = js_add (js_floor (fl (of_int shiftedIndex / of_int cc))) 1;
          clip = (js_add colNo span0 > js_add cc 1);
          overlapNumber = js_sub (js_sub (js_add colNo span0) cc) 1;
          overlapRatio = fl (of_int overlapNumber / of_int span0);
          heightRecompute = (if clip then fl (height entry * fl (1 - overlapRatio))
                             else height entry);
          span1 = (if clip then js_sub span0 overlapNumber else span0);
          shift2 = (if span1 > 1 then js_add shift1 (js_sub span1 1) else shift1);
          newRowStarts = (rowNo \<noteq> currentRowNumber st);
          prev1 = (if newRowStarts
                   then fl (prevRowsTotalHeight st + fl (currentRowMaxHeight st + gap))
                   else prevRowsTotalHeight st);
          max0 = (if newRowStarts then 0 else currentRowMaxHeight st);
          h = of_int (js_round heightRecompute)
      in (\<lparr>id_item = id_item entry, injected = injected entry, height = h,
            width = width entry, columnSpan = span1, newRow = newRow entry,
            renderComponent = renderComponent entry,
            columnNumber = colNo, rowNumber = rowNo, offset = prev1\<rparr>,
          \<lparr>currentRowNumber = (if newRowStarts then rowNo else currentRowNumber st),
            prevRowsTotalHeight = prev1,
            currentRowMaxHeight = max max0 h,
            columnShift = shift2\<rparr>))"

fun layout_cells_f64 ::
  "'p ConfigData \<Rightarrow> PackState \<Rightarrow> nat \<Rightarrow> 'p Item list \<Rightarrow> 'p Cell list \<times> PackState" where
  "layout_cells_f64 configData st index [] = ([], st)"
| "layout_cells_f64 configData st index (entry # rest) =
     (case place_entry_f64 configData st index entry of
        (cell, st') \<Rightarrow>
          (case layout_cells_f64 configData st' (Suc index) rest of
             (cs, st'') \<Rightarrow> (cell # cs, st'')))"

definition computeLayoutData_f64 :: "'p ConfigData option \<Rightarrow> 'p LayoutData" where
  "computeLayoutData_f64 configData =
     (case configData of
        None \<Rightarrow> \<lparr>totalHeight = 0, cells = []\<rparr>
      | Some cfg \<Rightarrow>
          (case layout_cells_f64 cfg pack_init 0 (entries cfg) of
             (cs, st) \<Rightarrow>
               \<lparr>totalHeight = fl (prevRowsTotalHeight st + currentRowMaxHeight st),
                cells = cs\<rparr>))"

section \<open>Viewport windower\<close>












section \<open>Loading state machine\<close>

text \<open>
  The component runs on one thread. An \<open>async\<close> method runs without interruption up to
  its first \<open>await\<close> and, once the awaited promise is settled, from there to the next
  one. The state of the component is therefore changed by a sequence of atomic steps:
  the calls of the host (\<open>mounted\<close>, the callback given to \<open>$nextTick\<close>, \<open>resize\<close>,
  \<open>scroll\<close>, \<open>resetGrid\<close>) and the settlements of the promises returned by
  \<open>updateFunction\<close>. What the environment decides is a parameter of the step: the
  geometry that \<open>computeContainerData\<close> samples (\<open>None\<close> when \<open>ref\<close> is \<open>null\<close> and
  nothing is sampled) and the outcome of a fetch.

  Three fields record what the steps do to the outside: \<open>pending\<close> counts the promises
  of \<open>updateFunction\<close> that are not settled yet, \<open>fetchLog\<close> holds, for every
  invocation of \<open>updateFunction\<close>, the value \<open>updateLock\<close> had at that moment, and
  \<open>console\<close> holds the lines written by \<open>console.debug\<close> and \<open>console.error\<close>.
\<close>

record Props =
  updateTriggerMargin :: real
  debug :: bool

record GridState =
  updateLock :: bool
  bottomReached :: bool
  containerData :: ContainerData
  pending :: nat
  fetchLog :: "bool list"
  console :: "string list"

definition initial_containerData :: ContainerData where
  "initial_containerData =
     \<lparr>size_cd = \<lparr>ElementSize.width = 0, ElementSize.height = 0\<rparr>,
      scroll = \<lparr>x = 0, y = 0\<rparr>,
      elementOffset = Some 0,
      elementSize = Some \<lparr>ElementSize.width = 0, ElementSize.height = 0\<rparr>\<rparr>"

definition initial_state :: GridState where
  "initial_state =
     \<lparr>updateLock = False, bottomReached = False, containerData = initial_containerData,
      pending = 0, fetchLog = [], console = []\<rparr>"

text \<open>
  How a run of an \<open>async\<close> method ends: it returns, it is suspended at the \<open>await\<close> of
  the fetch, or it throws. A thrown value is \<open>None\<close> when it is falsy and carries a
  description otherwise.
\<close>

datatype outcome = Returned | Awaiting | Thrown "string option"

definition debugLog :: "bool \<Rightarrow> string \<Rightarrow> GridState \<Rightarrow> GridState" where
  "debugLog condition msg s = (if condition then s\<lparr>console := console s @ [msg]\<rparr> else s)"

definition computeContainerData :: "ContainerData option \<Rightarrow> GridState \<Rightarrow> GridState" where
  "computeContainerData sample s =
     (case sample of None \<Rightarrow> s | Some cd \<Rightarrow> s\<lparr>containerData := cd\<rparr>)"

definition invoke_updateFunction :: "GridState \<Rightarrow> GridState" where
  \<comment> \<open>The call \<open>this.updateFunction()\<close>: one more promise is outstanding.\<close>
  "invoke_updateFunction s =
     s\<lparr>fetchLog := fetchLog s @ [updateLock s], pending := Suc (pending s)\<rparr>"

definition loadMoreDataAsync ::
  "Props \<Rightarrow> ContainerData option \<Rightarrow> GridState \<Rightarrow> outcome \<times> GridState" where
  \<comment> \<open>From the entry of \<open>loadMoreDataAsync\<close> to its first \<open>await\<close> or its end. Reading
      \<open>height\<close> of a \<open>null\<close> element size is a \<open>TypeError\<close>.\<close>
  "loadMoreDataAsync props sample s0 =
     (let s = computeContainerData sample s0;
          cd = containerData s
      in case elementSize cd of
           None \<Rightarrow> (Thrown (Some ''TypeError''), s)
         | Some es \<Rightarrow>
             (let windowTop = y (scroll cd);
                  windowBottom = fl (windowTop + ElementSize.height (size_cd cd));
                  bottomTrigger = max 0 (fl (fl (num (elementOffset cd) + ElementSize.height es)
                                               - updateTriggerMargin props))
              in if \<not> bottomReached s \<and> windowBottom \<ge> bottomTrigger \<and> \<not> updateLock s
                 then (Awaiting,
                       invoke_updateFunction
                         (debugLog (debug props) ''Loading next batch''
                            (s\<lparr>updateLock := True\<rparr>)))
                 else (Returned, s)))"

definition loadMoreDataAsync_resume ::
  "Props \<Rightarrow> bool \<Rightarrow> ContainerData option \<Rightarrow> GridState \<Rightarrow> outcome \<times> GridState" where
  \<comment> \<open>From the fulfilment of the awaited fetch with \<open>isLastBatch\<close> to the next
      \<open>await\<close> or the end: the recursive call runs at once.\<close>
  "loadMoreDataAsync_resume props isLastBatch sample s =
     (let s1 = (if isLastBatch
                then (debugLog (debug props) ''Bottom reached'' s)\<lparr>bottomReached := True\<rparr>
                else s);
          s2 = s1\<lparr>updateLock := False\<rparr>
      in loadMoreDataAsync props sample s2)"

definition catch_log :: "outcome \<times> GridState \<Rightarrow> GridState" where
  \<comment> \<open>The handler that \<open>loadMoreData\<close> attaches with \<open>.catch\<close>: a rejection of the
      chain of \<open>loadMoreDataAsync\<close> calls reaches it, and a truthy error is logged.\<close>
  "catch_log r =
     (case r of
        (Thrown (Some e), s) \<Rightarrow> s\<lparr>console := console s @ [''Fail to load next data batch'']\<rparr>
      | (_, s) \<Rightarrow> s)"

definition loadMoreData :: "Props \<Rightarrow> ContainerData option \<Rightarrow> GridState \<Rightarrow> GridState" where
  "loadMoreData props sample s = catch_log (loadMoreDataAsync props sample s)"

definition resize :: "Props \<Rightarrow> ContainerData option \<Rightarrow> GridState \<Rightarrow> GridState" where
  "resize = loadMoreData"

definition scroll_handler :: "Props \<Rightarrow> ContainerData option \<Rightarrow> GridState \<Rightarrow> GridState" where
  \<comment> \<open>The method \<open>scroll\<close>.\<close>
  "scroll_handler = loadMoreData"

definition resetGrid :: "Props \<Rightarrow> ContainerData option \<Rightarrow> GridState \<Rightarrow> GridState" where
  "resetGrid props sample s = loadMoreData props sample (s\<lparr>bottomReached := False\<rparr>)"

datatype event =
    Mounted "ContainerData option"
  | NextTick "ContainerData option"
  | Resize "ContainerData option"
  | Scroll "ContainerData option"
  | ResetGrid "ContainerData option"
  | FetchResolved bool "ContainerData option"
  | FetchRejected "string option"

fun step :: "Props \<Rightarrow> event \<Rightarrow> GridState \<Rightarrow> GridState option" where
  \<comment> \<open>\<open>mounted\<close> samples the geometry (\<open>initiliazeGrid\<close>) and defers \<open>loadMoreData\<close>
      to the next tick. A settlement needs an outstanding promise; a rejection ends the
      suspended method at its \<open>await\<close>, so nothing after that line runs.\<close>
  "step props (Mounted sample) s = Some (computeContainerData sample s)"
| "step props (NextTick sample) s = Some (loadMoreData props sample s)"
| "step props (Resize sample) s = Some (resize props sample s)"
| "step props (Scroll sample) s = Some (scroll_handler props sample s)"
| "step props (ResetGrid sample) s = Some (resetGrid props sample s)"
| "step props (FetchResolved isLastBatch sample) s =
     (if pending s = 0 then None
      else Some (catch_log (loadMoreDataAsync_resume props isLastBatch sample
                              (s\<lparr>pending := pending s - 1\<rparr>))))"
| "step props (FetchRejected err) s =
     (if pending s = 0 then None
      else Some (catch_log (Thrown err, s\<lparr>pending := pending s - 1\<rparr>)))"

fun run :: "Props \<Rightarrow> event list \<Rightarrow> GridState \<Rightarrow> GridState option" where
  "run props [] s = Some s"
| "run props (e # es) s =
     (case step props e s of None \<Rightarrow> None | Some s' \<Rightarrow> run props es s')"

fun is_reset :: "event \<Rightarrow> bool" where
  "is_reset (ResetGrid sample) = True"
| "is_reset e = False"

definition trigger_condition :: "Props \<Rightarrow> ContainerData \<Rightarrow> bool" where
  \<comment> \<open>The geometric part of the condition of \<open>loadMoreDataAsync\<close>, for a container
      whose element size is known.\<close>
  "trigger_condition props cd \<longleftrightarrow>
     (case elementSize cd of
        None \<Rightarrow> False
      | Some es \<Rightarrow>
          fl (y (scroll cd) + ElementSize.height (size_cd cd))
            \<ge> max 0 (fl (fl (num (elementOffset cd) + ElementSize.height es)
                            - updateTriggerMargin props)))"

section \<open>Auxiliary notions\<close>

text \<open>
  The column shift after the padding of a forced row break, and the row in which the
  entry at an index would land if nothing were padded: the terms in which the packer is
  analysed below.
\<close>

definition padded_shift :: "'p ConfigData \<Rightarrow> PackState \<Rightarrow> nat \<Rightarrow> 'p Item \<Rightarrow> int" where
  "padded_shift cfg st i e =
     (if newRow e \<and> js_rem (int i + columnShift st) (columnCount cfg) \<noteq> 0
      then columnShift st + (columnCount cfg - js_rem (int i + columnShift st) (columnCount cfg))
      else columnShift st)"

definition row_floor :: "'p ConfigData \<Rightarrow> PackState \<Rightarrow> nat \<Rightarrow> int" where
  "row_floor cfg st i = (int i + columnShift st) div columnCount cfg + 1"

section \<open>Notions of the specification and sample inputs\<close>

text \<open>
  The last row of a sequence of cells, and the maximum cell height of a sequence of
  cells, as the specification of the total height speaks of them.
\<close>

definition last_row :: "'p Cell list \<Rightarrow> 'p Cell list" where
  "last_row cs = filter (\<lambda>c. rowNumber c = rowNumber (last cs)) cs"

definition max_height :: "'p Cell list \<Rightarrow> real" where
  "max_height cs = Max (set (map height cs))"


text \<open>Sample entries, cells and configs on which the statements below are evaluated.\<close>

definition tile :: "string \<Rightarrow> real \<Rightarrow> int \<Rightarrow> bool \<Rightarrow> unit Item" where
  "tile i h sp nr =
     \<lparr>id_item = i, injected = (), height = h, width = None, columnSpan = sp,
      newRow = nr, renderComponent = ''card''\<rparr>"

definition placed :: "unit Item \<Rightarrow> int \<Rightarrow> int \<Rightarrow> real \<Rightarrow> unit Cell" where
  "placed e col row off =
     \<lparr>id_item = id_item e, injected = injected e, height = height e, width = width e,
      columnSpan = columnSpan e, newRow = newRow e, renderComponent = renderComponent e,
      columnNumber = col, rowNumber = row, offset = off\<rparr>"

definition two_rows_config :: "real \<Rightarrow> unit ConfigData" where
  "two_rows_config gap =
     \<lparr>windowMargin = 0, gridGap = gap, columnCount = 1,
      entries = [tile ''a'' 10 1 False, tile ''b'' 10 1 False]\<rparr>"

definition one_row_config :: "real \<Rightarrow> unit ConfigData" where
  "one_row_config gap =
     \<lparr>windowMargin = 0, gridGap = gap, columnCount = 2,
      entries = [tile ''a'' 10 1 False, tile ''b'' 30 1 False]\<rparr>"

definition negative_height_config :: "unit ConfigData" where
  "negative_height_config =
     \<lparr>windowMargin = 0, gridGap = 5, columnCount = 1,
      entries = [tile ''a'' (- 10) 1 False]\<rparr>"



section \<open>Notions and sample inputs of the loading state machine and the windower\<close>

definition single_flight :: "GridState \<Rightarrow> bool" where
  "single_flight s \<longleftrightarrow>
     pending s \<le> 1 \<and> (pending s = 1 \<longrightarrow> updateLock s) \<and> (\<forall>b \<in> set (fetchLog s). b)"

definition default_props :: Props where
  "default_props = \<lparr>updateTriggerMargin = 500, debug = False\<rparr>"

text \<open>The condition under which an evaluation starts a fetch.\<close>

definition starts_fetch :: "Props \<Rightarrow> ContainerData option \<Rightarrow> GridState \<Rightarrow> bool" where
  "starts_fetch props sample s \<longleftrightarrow>
     \<not> bottomReached s \<and> \<not> updateLock s
     \<and> trigger_condition props (containerData (computeContainerData sample s))"

fun is_resolved :: "event \<Rightarrow> bool" where
  "is_resolved (FetchResolved isLastBatch sample) = True"
| "is_resolved e = False"

definition loading_state :: GridState where
  "loading_state =
     \<lparr>updateLock = True, bottomReached = False, containerData = initial_containerData,
      pending = 1, fetchLog = [True], console = []\<rparr>"

definition reloading_state :: GridState where
  "reloading_state =
     \<lparr>updateLock = True, bottomReached = False, containerData = initial_containerData,
      pending = 1, fetchLog = [True, True], console = []\<rparr>"

definition done_state :: GridState where
  "done_state =
     \<lparr>updateLock = False, bottomReached = True, containerData = initial_containerData,
      pending = 0, fetchLog = [True], console = []\<rparr>"

definition failed_state :: GridState where
  "failed_state =
     \<lparr>updateLock = True, bottomReached = False, containerData = initial_containerData,
      pending = 0, fetchLog = [True], console = [''Fail to load next data batch'']\<rparr>"

definition narrow_containerData :: ContainerData where
  "narrow_containerData =
     \<lparr>size_cd = \<lparr>ElementSize.width = 360, ElementSize.height = 640\<rparr>,
      scroll = \<lparr>x = 0, y = 0\<rparr>,
      elementOffset = Some 0,
      elementSize = Some \<lparr>ElementSize.width = 200, ElementSize.height = 0\<rparr>\<rparr>"




section \<open>Rounding to binary64\<close>

lemma pow2_powr: "pow2 k = 2 powr (of_int k)"
  by (simp add: pow2_def powr_int)

lemma pow2_pos: "0 < pow2 k"
  by (simp add: pow2_powr)

lemma pow2_add: "pow2 (a + b) = pow2 a * pow2 b"
  by (simp add: pow2_powr powr_add)

lemma pow2_diff: "pow2 (a - b) = pow2 a / pow2 b"
  by (simp add: pow2_powr powr_diff)

lemma pow2_nat: "0 \<le> k \<Longrightarrow> pow2 k = 2 ^ nat k"
  by (simp add: pow2_def)

lemma pow2_mono: "a \<le> b \<Longrightarrow> pow2 a \<le> pow2 b"
  by (simp add: pow2_powr)

lemma pow2_strict_mono: "a < b \<Longrightarrow> pow2 a < pow2 b"
  by (simp add: pow2_powr)

lemma pow2_less_cancel: "pow2 a < pow2 b \<Longrightarrow> a < b"
  by (simp add: pow2_powr)

lemma log_floor_bounds:
  assumes "v \<noteq> 0"
  shows "pow2 \<lfloor>log 2 \<bar>v\<bar>\<rfloor> \<le> \<bar>v\<bar>" and "\<bar>v\<bar> < pow2 (\<lfloor>log 2 \<bar>v\<bar>\<rfloor> + 1)"
proof -
  have "0 < \<bar>v\<bar>" using assms by simp
  then have "2 powr (of_int \<lfloor>log 2 \<bar>v\<bar>\<rfloor>) \<le> \<bar>v\<bar> \<and> \<bar>v\<bar> < 2 powr (of_int (\<lfloor>log 2 \<bar>v\<bar>\<rfloor> + 1))"
    using floor_log_eq_powr_iff[of "\<bar>v\<bar>" 2 "\<lfloor>log 2 \<bar>v\<bar>\<rfloor>"] by simp
  then show "pow2 \<lfloor>log 2 \<bar>v\<bar>\<rfloor> \<le> \<bar>v\<bar>" and "\<bar>v\<bar> < pow2 (\<lfloor>log 2 \<bar>v\<bar>\<rfloor> + 1)"
    by (simp_all add: pow2_powr)
qed

lemma log_floor_eqI:
  assumes "pow2 e \<le> \<bar>v\<bar>" and "\<bar>v\<bar> < pow2 (e + 1)"
  shows "\<lfloor>log 2 \<bar>v\<bar>\<rfloor> = e"
proof -
  have "0 < \<bar>v\<bar>" using assms(1) pow2_pos[of e] by linarith
  then show ?thesis
    using floor_log_eq_powr_iff[of "\<bar>v\<bar>" 2 e] assms by (simp add: pow2_powr)
qed

lemma binade_eqI:
  assumes "pow2 e \<le> \<bar>v\<bar>" and "\<bar>v\<bar> < pow2 (e + 1)" and "- 1022 \<le> e"
  shows "binade v = e"
  using log_floor_eqI[OF assms(1,2)] assms(3) by (simp add: binade_def)

lemma round_half_even_int: "round_half_even (of_int n) = n"
  by (simp add: round_half_even_def)

lemma round_half_even_error: "\<bar>of_int (round_half_even t) - t\<bar> \<le> 1 / 2"
  by (simp add: round_half_even_def)

lemma round_half_even_ge: "of_int n \<le> t \<Longrightarrow> n \<le> round_half_even t"
  by (simp add: round_half_even_def le_floor_iff) linarith

lemma round_half_even_le: "t \<le> of_int n \<Longrightarrow> round_half_even t \<le> n"
  by (simp add: round_half_even_def) linarith

lemma round_half_even_less: "t < of_int n - 1 / 2 \<Longrightarrow> round_half_even t < n"
  by (simp add: round_half_even_def) linarith


lemma fl_exact:
  assumes v: "v = of_int m * pow2 j" and m: "\<bar>m\<bar> < 2 ^ 53" and j: "- 1074 \<le> j"
  shows "fl v = v"
proof (cases "v = 0")
  case True
  then show ?thesis by (simp add: fl_def)
next
  case False
  let ?e0 = "\<lfloor>log 2 \<bar>v\<bar>\<rfloor>"
  have "pow2 ?e0 \<le> \<bar>v\<bar>" by (rule log_floor_bounds(1)[OF False])
  also have "\<bar>v\<bar> = of_int \<bar>m\<bar> * pow2 j"
    using pow2_pos[of j] by (simp add: v abs_mult)
  also have "\<dots> < 2 ^ 53 * pow2 j"
  proof -
    have "real_of_int \<bar>m\<bar> < 2 ^ 53" using m by (metis of_int_less_numeral_power_cancel_iff)
    then show ?thesis using pow2_pos[of j] by simp
  qed
  also have "\<dots> = pow2 (53 + j)" by (simp add: pow2_add pow2_nat)
  finally have "?e0 < 53 + j" by (rule pow2_less_cancel)
  then have d: "0 \<le> j - (binade v - 52)"
    using j by (simp add: binade_def)
  define d where "d = nat (j - (binade v - 52))"
  define u where "u = pow2 (binade v - 52)"
  have u: "0 < u" by (simp add: u_def pow2_pos)
  have "pow2 j = pow2 (int d + (binade v - 52))"
    using d by (simp add: d_def)
  then have pj: "pow2 j = 2 ^ d * u"
    by (simp add: pow2_add pow2_nat u_def)
  have "v / u = of_int m * (2 ^ d * u) / u"
    by (simp only: v pj)
  also have "\<dots> = of_int (m * 2 ^ d)"
    using u by simp
  finally have "round_half_even (v / u) = m * 2 ^ d"
    by (simp only: round_half_even_int)
  then have "fl v = of_int (m * 2 ^ d) * u"
    using False by (simp add: fl_def u_def)
  also have "\<dots> = of_int m * (2 ^ d * u)" by simp
  also have "\<dots> = v" by (simp only: v pj)
  finally show ?thesis .
qed

lemma fl_int: "\<bar>n\<bar> \<le> 2 ^ 53 \<Longrightarrow> fl (of_int n) = of_int n"
proof -
  assume n: "\<bar>n\<bar> \<le> 2 ^ 53"
  show ?thesis
  proof (cases "\<bar>n\<bar> = 2 ^ 53")
    case True
    then have "n = 9007199254740992 \<or> n = - 9007199254740992" by (simp add: abs_if split: if_splits)
    then have "real_of_int n = of_int (n div 2) * pow2 1" and "\<bar>n div 2\<bar> < 2 ^ 53"
      by (auto simp add: pow2_def)
    then show ?thesis by (rule fl_exact) simp
  next
    case False
    then have "\<bar>n\<bar> < 2 ^ 53" using n by linarith
    moreover have "real_of_int n = of_int n * pow2 0" by (simp add: pow2_def)
    ultimately show ?thesis using fl_exact[of "real_of_int n" n 0] by simp
  qed
qed

lemma dbl_int_exact: "\<bar>n\<bar> \<le> 2 ^ 53 \<Longrightarrow> dbl_int n = n"
  by (simp add: dbl_int_def fl_int)

lemma fl_error:
  assumes "pow2 (- 1022) \<le> \<bar>v\<bar>"
  shows "\<bar>fl v - v\<bar> \<le> \<bar>v\<bar> / 2 ^ 53"
proof -
  have nz: "v \<noteq> 0" using assms pow2_pos[of "- 1022"] by auto
  let ?e0 = "\<lfloor>log 2 \<bar>v\<bar>\<rfloor>"
  have "pow2 (- 1022) < pow2 (?e0 + 1)"
    using assms log_floor_bounds(2)[OF nz] by linarith
  then have "- 1022 \<le> ?e0" using pow2_less_cancel by fastforce
  then have b: "binade v = ?e0" by (simp add: binade_def)
  let ?u = "pow2 (binade v - 52)"
  have u: "0 < ?u" by (rule pow2_pos)
  have "fl v - v = (of_int (round_half_even (v / ?u)) - v / ?u) * ?u"
    using nz u by (simp add: fl_def algebra_simps)
  then have "\<bar>fl v - v\<bar> = \<bar>of_int (round_half_even (v / ?u)) - v / ?u\<bar> * ?u"
    using u by (simp add: abs_mult)
  also have "\<dots> \<le> (1 / 2) * ?u"
    using round_half_even_error[of "v / ?u"] u by (intro mult_right_mono) simp_all
  also have "?u = pow2 ?e0 / 2 ^ 52"
    by (simp add: b pow2_diff pow2_nat)
  also have "(1 / 2) * (pow2 ?e0 / 2 ^ 52) = pow2 ?e0 / 2 ^ 53" by simp
  also have "\<dots> \<le> \<bar>v\<bar> / 2 ^ 53"
    using log_floor_bounds(1)[OF nz] by (simp add: divide_right_mono)
  finally show ?thesis .
qed


lemma floor_fl_div:
  assumes s: "0 \<le> s" "s < 2 ^ 53" and c: "1 \<le> c" "c \<le> 2 ^ 53"
  shows "\<lfloor>fl (of_int s / of_int c)\<rfloor> = s div c"
proof (cases "s = 0")
  case True
  then show ?thesis by (simp add: fl_def)
next
  case False
  define v where "v = real_of_int s / real_of_int c"
  define q where "q = s div c"
  have cpos: "0 < real_of_int c" using c by simp
  have spos: "1 \<le> real_of_int s" using s False by simp
  have xpos: "0 < v" using cpos spos by (simp add: v_def)
  have cx: "real_of_int c * v = real_of_int s" using cpos by (simp add: v_def)
  have "real_of_int c \<le> 2 ^ 53" using c(2) by (metis of_int_le_numeral_power_cancel_iff)
  then have "1 / 2 ^ 53 \<le> v"
    using spos cpos by (simp add: v_def field_simps)
  moreover have "pow2 (- 1022) \<le> 1 / 2 ^ 53" by (simp add: pow2_def field_simps)
  ultimately have normal: "pow2 (- 1022) \<le> \<bar>v\<bar>" using xpos by simp
  have nz: "v \<noteq> 0" using xpos by simp
  let ?e0 = "\<lfloor>log 2 \<bar>v\<bar>\<rfloor>"
  have "pow2 (- 1022) < pow2 (?e0 + 1)"
    using normal log_floor_bounds(2)[OF nz] by linarith
  then have "- 1022 \<le> ?e0" using pow2_less_cancel by fastforce
  then have b: "binade v = ?e0" by (simp add: binade_def)
  have lo: "pow2 (binade v) \<le> v" using log_floor_bounds(1)[OF nz] xpos b by simp
  have "real_of_int s < 2 ^ 53" using s(2) by (metis of_int_less_numeral_power_cancel_iff)
  then have xlt: "v < 2 ^ 53"
    using cpos c(1) spos by (simp add: v_def field_simps)
  then have "pow2 (binade v) < pow2 53" using lo by (simp add: pow2_def)
  then have e52: "binade v \<le> 52" using pow2_less_cancel by fastforce
  define k where "k = nat (52 - binade v)"
  define u where "u = pow2 (binade v - 52)"
  have u: "0 < u" by (simp add: u_def pow2_pos)
  have "pow2 (binade v - 52) * pow2 (int k) = pow2 0"
    using e52 by (simp add: k_def pow2_add[symmetric])
  then have uk: "u * 2 ^ k = 1" by (simp add: u_def pow2_nat pow2_def)
  then have xu: "v / u = v * 2 ^ k" using u by (simp add: field_simps)
  have fl: "fl v = of_int (round_half_even (v * 2 ^ k)) * u"
    using nz xu by (simp add: fl_def u_def)
  have qle: "real_of_int q \<le> v"
    using cpos by (simp add: q_def v_def) (metis floor_divide_of_int_eq of_int_floor_le)
  have xle: "v \<le> real_of_int (q + 1) - 1 / real_of_int c"
  proof -
    have "s = q * c + s mod c" by (simp add: q_def)
    moreover have "s mod c \<le> c - 1" using c(1) by (simp add: pos_mod_bound zle_diff1_eq)
    ultimately have "s \<le> q * c + c - 1" by linarith
    then have "real_of_int s \<le> real_of_int (q * c + c - 1)" by (simp only: of_int_le_iff)
    then show ?thesis using cpos by (simp add: v_def field_simps)
  qed
  have ge: "real_of_int q \<le> fl v"
  proof -
    have "real_of_int (q * 2 ^ k) \<le> v * 2 ^ k" using qle by simp
    then have "q * 2 ^ k \<le> round_half_even (v * 2 ^ k)" by (rule round_half_even_ge)
    then have "real_of_int (q * 2 ^ k) \<le> real_of_int (round_half_even (v * 2 ^ k))"
      by (simp only: of_int_le_iff)
    then have "real_of_int (q * 2 ^ k) * u \<le> fl v"
      using u by (simp add: fl)
    moreover have "real_of_int (q * 2 ^ k) * u = real_of_int q * (u * 2 ^ k)"
      by simp
    ultimately show ?thesis by (simp only: uk mult_1_right)
  qed
  have lt: "fl v < real_of_int (q + 1)"
  proof -
    have "real_of_int c * pow2 (binade v) \<le> real_of_int c * v"
      using lo cpos by simp
    also have "\<dots> < 2 ^ 53" using cx \<open>real_of_int s < 2 ^ 53\<close> by simp
    finally have "real_of_int c * pow2 (binade v) * 2 ^ k < 2 ^ 53 * 2 ^ k" by simp
    moreover have "pow2 (binade v) * 2 ^ k = 2 ^ 52"
    proof -
      have "pow2 (binade v) * pow2 (int k) = pow2 52"
        using e52 by (simp add: k_def pow2_add[symmetric])
      then show ?thesis by (simp add: pow2_nat pow2_def)
    qed
    ultimately have "real_of_int c * 2 ^ 52 < 2 ^ 53 * 2 ^ k"
      by (simp add: mult.assoc)
    then have ck: "real_of_int c < 2 * 2 ^ k" by simp
    have "v * 2 ^ k \<le> (real_of_int (q + 1) - 1 / real_of_int c) * 2 ^ k"
      using xle by simp
    also have "\<dots> = real_of_int ((q + 1) * 2 ^ k) - 2 ^ k / real_of_int c"
      by (simp add: algebra_simps)
    also have "\<dots> < real_of_int ((q + 1) * 2 ^ k) - 1 / 2"
    proof -
      have "1 / 2 < 2 ^ k / real_of_int c"
        using ck cpos by (simp add: field_simps)
      then show ?thesis by simp
    qed
    finally have "round_half_even (v * 2 ^ k) < (q + 1) * 2 ^ k"
      by (rule round_half_even_less)
    then have "real_of_int (round_half_even (v * 2 ^ k)) < real_of_int ((q + 1) * 2 ^ k)"
      by (simp only: of_int_less_iff)
    then have "fl v < real_of_int ((q + 1) * 2 ^ k) * u"
      using u by (simp add: fl)
    moreover have "real_of_int ((q + 1) * 2 ^ k) * u = real_of_int (q + 1) * (u * 2 ^ k)"
      by simp
    ultimately show ?thesis by (simp only: uk mult_1_right)
  qed
  have "\<lfloor>fl v\<rfloor> = q" using ge lt by (simp add: floor_eq_iff)
  then show ?thesis by (simp add: v_def q_def)
qed

lemma fl_eval:
  assumes "pow2 e \<le> \<bar>v\<bar>" and "\<bar>v\<bar> < pow2 (e + 1)" and "- 1022 \<le> e"
  shows "fl v = of_int (round_half_even (v / pow2 (e - 52))) * pow2 (e - 52)"
proof -
  have "v \<noteq> 0" using assms(1) pow2_pos[of e] by auto
  then show ?thesis by (simp add: fl_def binade_eqI[OF assms])
qed

lemma fl_0: "fl 0 = 0"
  by (simp add: fl_def)


lemma fl_neg_numeral: "(numeral n :: int) \<le> 2 ^ 53 \<Longrightarrow> fl (- numeral n) = - numeral n"
  using fl_int[of "- numeral n"] by simp

lemma fl_1: "fl 1 = 1"
  using fl_int[of 1] by simp

lemma js_add_exact: "\<bar>a + b\<bar> \<le> 2 ^ 53 \<Longrightarrow> js_add a b = a + b"
  by (simp add: js_add_def dbl_int_exact)

lemma js_sub_exact: "\<bar>a - b\<bar> \<le> 2 ^ 53 \<Longrightarrow> js_sub a b = a - b"
  by (simp add: js_sub_def dbl_int_exact)


lemma round_half_even_mono: "s \<le> t \<Longrightarrow> round_half_even s \<le> round_half_even t"
proof -
  assume st: "s \<le> t"
  show ?thesis
  proof (cases "\<lfloor>s\<rfloor> = \<lfloor>t\<rfloor>")
    case True
    then show ?thesis using st by (simp add: round_half_even_def)
  next
    case False
    then have "\<lfloor>s\<rfloor> < \<lfloor>t\<rfloor>" using floor_mono[OF st] by linarith
    then have "\<lfloor>s\<rfloor> + 1 \<le> \<lfloor>t\<rfloor>" by linarith
    moreover have "round_half_even s \<le> \<lfloor>s\<rfloor> + 1" by (simp add: round_half_even_def)
    moreover have "\<lfloor>t\<rfloor> \<le> round_half_even t" by (simp add: round_half_even_def)
    ultimately show ?thesis by linarith
  qed
qed

lemma round_half_even_minus: "round_half_even (- t) = - round_half_even t"
proof (cases "t = of_int \<lfloor>t\<rfloor>")
  case True
  then obtain n where t: "t = of_int n" ..
  have "round_half_even (- of_int n) = round_half_even (of_int (- n))" by simp
  also have "\<dots> = - n" by (simp only: round_half_even_int)
  finally show ?thesis by (simp add: t round_half_even_int)
next
  case False
  have lt: "of_int \<lfloor>t\<rfloor> < t" using False of_int_floor_le[of t] by linarith
  have "\<lfloor>- t\<rfloor> = - \<lfloor>t\<rfloor> - 1"
  proof (rule floor_unique)
    show "of_int (- \<lfloor>t\<rfloor> - 1) \<le> - t" using floor_correct[of t] by simp linarith
    show "- t < of_int (- \<lfloor>t\<rfloor> - 1) + 1" using lt by simp
  qed
  then show ?thesis
    using lt by (simp add: round_half_even_def)
qed

lemma binade_minus: "binade (- v) = binade v"
  by (simp add: binade_def)

lemma fl_minus: "fl (- v) = - fl v"
  by (simp add: fl_def binade_minus round_half_even_minus)

lemma binade_ge: "- 1022 \<le> binade v"
  by (simp add: binade_def)

lemma abs_less_binade: "\<bar>v\<bar> < pow2 (binade v + 1)"
proof (cases "v = 0")
  case True
  then show ?thesis by (simp add: pow2_pos)
next
  case False
  have "\<bar>v\<bar> < pow2 (\<lfloor>log 2 \<bar>v\<bar>\<rfloor> + 1)" by (rule log_floor_bounds(2)[OF False])
  also have "\<dots> \<le> pow2 (binade v + 1)" by (rule pow2_mono) (simp add: binade_def)
  finally show ?thesis .
qed

lemma binade_normal: "pow2 (- 1022) \<le> \<bar>v\<bar> \<Longrightarrow> pow2 (binade v) \<le> \<bar>v\<bar>"
proof -
  assume a: "pow2 (- 1022) \<le> \<bar>v\<bar>"
  have nz: "v \<noteq> 0" using a pow2_pos[of "- 1022"] by auto
  have "pow2 (- 1022) < pow2 (\<lfloor>log 2 \<bar>v\<bar>\<rfloor> + 1)"
    using a log_floor_bounds(2)[OF nz] by linarith
  then have "- 1022 \<le> \<lfloor>log 2 \<bar>v\<bar>\<rfloor>" using pow2_less_cancel by fastforce
  then have "binade v = \<lfloor>log 2 \<bar>v\<bar>\<rfloor>" by (simp add: binade_def)
  then show ?thesis using log_floor_bounds(1)[OF nz] by simp
qed

lemma binade_mono: "0 < a \<Longrightarrow> a \<le> b \<Longrightarrow> binade a \<le> binade b"
proof -
  assume a: "0 < a" and ab: "a \<le> b"
  have "log 2 \<bar>a\<bar> \<le> log 2 \<bar>b\<bar>" using a ab by simp
  then have "\<lfloor>log 2 \<bar>a\<bar>\<rfloor> \<le> \<lfloor>log 2 \<bar>b\<bar>\<rfloor>" by (rule floor_mono)
  then show ?thesis by (simp add: binade_def)
qed

lemma fl_unit:
  "fl v = of_int (round_half_even (v / pow2 (binade v - 52))) * pow2 (binade v - 52)"
  by (simp add: fl_def round_half_even_def)

lemma pow2_52: "pow2 (e - 52) * 2 ^ 52 = pow2 e" and pow2_53: "pow2 (e - 52) * 2 ^ 53 = pow2 (e + 1)"
proof -
  have "pow2 (e - 52) * pow2 52 = pow2 e" by (simp add: pow2_add[symmetric])
  then show "pow2 (e - 52) * 2 ^ 52 = pow2 e" by (simp add: pow2_def)
  have "pow2 (e - 52) * pow2 53 = pow2 (e - 52 + 53)" by (simp only: pow2_add)
  also have "e - 52 + 53 = e + 1" by simp
  finally have "pow2 (e - 52) * pow2 53 = pow2 (e + 1)" .
  then show "pow2 (e - 52) * 2 ^ 53 = pow2 (e + 1)" by (simp add: pow2_def)
qed

lemma fl_nonneg: "0 \<le> v \<Longrightarrow> 0 \<le> fl v"
proof -
  assume v: "0 \<le> v"
  have "0 \<le> v / pow2 (binade v - 52)" using v pow2_pos[of "binade v - 52"] by simp
  then have "0 \<le> round_half_even (v / pow2 (binade v - 52))"
    using round_half_even_ge[of 0] by simp
  then show ?thesis using pow2_pos[of "binade v - 52"] by (simp add: fl_unit)
qed

lemma fl_upper: "0 \<le> v \<Longrightarrow> fl v \<le> pow2 (binade v + 1)"
proof -
  assume v: "0 \<le> v"
  let ?u = "pow2 (binade v - 52)"
  have u: "0 < ?u" by (rule pow2_pos)
  have "v < ?u * 2 ^ 53" unfolding pow2_53 using abs_less_binade[of v] v by simp
  then have "v / ?u \<le> of_int (2 ^ 53)" using u by (simp add: field_simps)
  then have "round_half_even (v / ?u) \<le> 2 ^ 53" by (rule round_half_even_le)
  then have "real_of_int (round_half_even (v / ?u)) \<le> real_of_int (2 ^ 53)"
    by (simp only: of_int_le_iff)
  then have "real_of_int (round_half_even (v / ?u)) * ?u \<le> real_of_int (2 ^ 53) * ?u"
    using u by (simp only: mult_le_cancel_right_pos)
  then have "fl v \<le> real_of_int (2 ^ 53) * ?u" by (simp only: fl_unit[of v])
  also have "real_of_int (2 ^ 53) * ?u = pow2 (binade v + 1)"
    using pow2_53[of "binade v"] by (simp add: mult.commute)
  finally show ?thesis .
qed

lemma fl_lower: "pow2 (- 1022) \<le> v \<Longrightarrow> pow2 (binade v) \<le> fl v"
proof -
  assume a: "pow2 (- 1022) \<le> v"
  have v: "0 < v" using a pow2_pos[of "- 1022"] by linarith
  let ?u = "pow2 (binade v - 52)"
  have u: "0 < ?u" by (rule pow2_pos)
  have "?u * 2 ^ 52 \<le> v" unfolding pow2_52 using binade_normal[of v] a v by simp
  then have "of_int (2 ^ 52) \<le> v / ?u" using u by (simp add: field_simps)
  then have "2 ^ 52 \<le> round_half_even (v / ?u)" by (rule round_half_even_ge)
  then have "real_of_int (2 ^ 52) \<le> real_of_int (round_half_even (v / ?u))"
    by (simp only: of_int_le_iff)
  then have "real_of_int (2 ^ 52) * ?u \<le> real_of_int (round_half_even (v / ?u)) * ?u"
    using u by (simp only: mult_le_cancel_right_pos)
  then have "real_of_int (2 ^ 52) * ?u \<le> fl v" by (simp only: fl_unit[of v])
  moreover have "real_of_int (2 ^ 52) * ?u = pow2 (binade v)"
    using pow2_52[of "binade v"] by (simp add: mult.commute)
  ultimately show ?thesis by simp
qed

lemma fl_mono_pos:
  assumes a: "0 < a" and ab: "a \<le> b"
  shows "fl a \<le> fl b"
proof (cases "binade a = binade b")
  case True
  let ?u = "pow2 (binade b - 52)"
  have u: "0 < ?u" by (rule pow2_pos)
  have "a / ?u \<le> b / ?u" using ab u by (simp add: divide_right_mono)
  then have "round_half_even (a / ?u) \<le> round_half_even (b / ?u)"
    by (rule round_half_even_mono)
  then have "real_of_int (round_half_even (a / ?u)) \<le> real_of_int (round_half_even (b / ?u))"
    by (simp only: of_int_le_iff)
  then have "real_of_int (round_half_even (a / ?u)) * ?u \<le> real_of_int (round_half_even (b / ?u)) * ?u"
    using u by (simp only: mult_le_cancel_right_pos)
  then show ?thesis by (simp add: fl_unit[of a] fl_unit[of b] True)
next
  case False
  then have lt: "binade a < binade b" using binade_mono[OF a ab] by linarith
  have "- 1022 < binade b" using lt binade_ge[of a] by linarith
  then have "pow2 (- 1022) \<le> pow2 (binade b - 1)" by (intro pow2_mono) simp
  have nb: "pow2 (- 1022) \<le> b"
  proof (rule ccontr)
    assume "\<not> pow2 (- 1022) \<le> b"
    then have "\<bar>b\<bar> < pow2 (- 1022)" using a ab by simp
    moreover have "b \<noteq> 0" using a ab by simp
    ultimately have "pow2 \<lfloor>log 2 \<bar>b\<bar>\<rfloor> < pow2 (- 1022)"
      using log_floor_bounds(1)[of b] by linarith
    then have "\<lfloor>log 2 \<bar>b\<bar>\<rfloor> < - 1022" by (rule pow2_less_cancel)
    then have "binade b = - 1022" by (simp add: binade_def)
    then show False using lt binade_ge[of a] by linarith
  qed
  have "fl a \<le> pow2 (binade a + 1)" using a by (intro fl_upper) simp
  also have "\<dots> \<le> pow2 (binade b)" using lt by (intro pow2_mono) simp
  also have "\<dots> \<le> fl b" by (rule fl_lower[OF nb])
  finally show ?thesis .
qed

lemma fl_mono: "a \<le> b \<Longrightarrow> fl a \<le> fl b"
proof -
  assume ab: "a \<le> b"
  consider "0 < a" | "a \<le> 0" "0 \<le> b" | "b < 0" using ab by linarith
  then show ?thesis
  proof cases
    case 1
    then show ?thesis using ab by (rule fl_mono_pos)
  next
    case 2
    have "0 \<le> fl (- a)" using 2(1) by (intro fl_nonneg) simp
    then have "fl a \<le> 0" by (simp add: fl_minus)
    moreover have "0 \<le> fl b" using 2(2) by (rule fl_nonneg)
    ultimately show ?thesis by linarith
  next
    case 3
    have "fl (- b) \<le> fl (- a)" using 3 ab by (intro fl_mono_pos) simp_all
    then show ?thesis by (simp add: fl_minus)
  qed
qed

lemma fl_idem: "fl (fl v) = fl v"
proof -
  let ?u = "pow2 (binade v - 52)"
  let ?m = "round_half_even (v / ?u)"
  have u: "0 < ?u" by (rule pow2_pos)
  have f: "fl v = of_int ?m * ?u" by (rule fl_unit)
  have "\<bar>v\<bar> < ?u * 2 ^ 53" unfolding pow2_53 by (rule abs_less_binade)
  then have b: "\<bar>v / ?u\<bar> < 2 ^ 53" using u by (simp add: field_simps abs_mult)
  have "v / ?u \<le> 2 ^ 53" using b by linarith
  then have "v / ?u \<le> of_int (2 ^ 53)" by simp
  then have hi: "?m \<le> 2 ^ 53" by (rule round_half_even_le)
  have "- (2 ^ 53) \<le> v / ?u" using b by linarith
  then have "of_int (- (2 ^ 53)) \<le> v / ?u" by simp
  then have lo: "- (2 ^ 53) \<le> ?m" by (rule round_half_even_ge)
  have j: "- 1074 \<le> binade v - 52" using binade_ge[of v] by simp
  show ?thesis
  proof (cases "\<bar>?m\<bar> < 2 ^ 53")
    case True
    show ?thesis by (rule fl_exact[OF f True j])
  next
    case False
    then have "?m = 2 ^ 53 \<or> ?m = - (2 ^ 53)" using hi lo by linarith
    then have "fl v = of_int (?m div 2 ^ 53) * pow2 (binade v + 1) \<and> \<bar>?m div 2 ^ 53\<bar> < 2 ^ 53"
      using f by (auto simp add: pow2_53[symmetric])
    then show ?thesis using fl_exact[of "fl v" "?m div 2 ^ 53" "binade v + 1"] j by simp
  qed
qed

lemma fl_of_int_integral: "\<exists>k. fl (of_int n) = of_int k"
proof (cases "\<bar>n\<bar> \<le> 2 ^ 53")
  case True
  then show ?thesis using fl_int[OF True] by blast
next
  case False
  then have "(2 ^ 53 :: int) \<le> \<bar>n\<bar>" by linarith
  then have "real_of_int (2 ^ 53) \<le> real_of_int \<bar>n\<bar>" by (simp only: of_int_le_iff)
  then have big: "2 ^ 53 \<le> \<bar>real_of_int n\<bar>" by simp
  have "pow2 53 \<le> \<bar>real_of_int n\<bar>" using big by (simp add: pow2_def)
  also have "\<dots> < pow2 (binade (real_of_int n) + 1)" by (rule abs_less_binade)
  finally have "53 < binade (real_of_int n) + 1" by (rule pow2_less_cancel)
  then have e: "0 \<le> binade (real_of_int n) - 52" by simp
  have "fl (of_int n) = of_int (round_half_even (of_int n / pow2 (binade (real_of_int n) - 52))
            * 2 ^ nat (binade (real_of_int n) - 52))"
    by (simp add: fl_unit[of "real_of_int n"] pow2_nat[OF e])
  then show ?thesis by blast
qed

lemma of_int_dbl_int: "of_int (dbl_int n) = fl (of_int n)"
  using fl_of_int_integral[of n] by (auto simp add: dbl_int_def)

lemma dbl_int_mono: "a \<le> b \<Longrightarrow> dbl_int a \<le> dbl_int b"
  by (simp add: dbl_int_def floor_mono fl_mono)

lemma dbl_int_idem: "dbl_int (dbl_int n) = dbl_int n"
proof -
  have "real_of_int (dbl_int (dbl_int n)) = real_of_int (dbl_int n)"
    by (simp only: of_int_dbl_int fl_idem)
  then show ?thesis by (simp only: of_int_eq_iff)
qed

lemma dbl_int_0: "dbl_int 0 = 0"
  by (simp add: dbl_int_def fl_def)


section \<open>Arithmetic of the packer\<close>

lemma js_rem_nonneg: "0 \<le> a \<Longrightarrow> 0 < b \<Longrightarrow> js_rem a b = a mod b"
  by (simp add: js_rem_def)

lemma js_floor_div: "js_floor (of_int a / of_int b) = a div b"
  by (simp add: js_floor_def floor_divide_of_int_eq)

lemma padded_shift_ge:
  assumes "1 \<le> columnCount cfg" "0 \<le> columnShift st"
  shows "columnShift st \<le> padded_shift cfg st i e"
proof -
  have "js_rem (int i + columnShift st) (columnCount cfg) = (int i + columnShift st) mod columnCount cfg"
    using assms by (simp add: js_rem_nonneg)
  moreover have "(int i + columnShift st) mod columnCount cfg < columnCount cfg"
    using assms(1) by (simp add: pos_mod_bound)
  ultimately show ?thesis by (simp add: padded_shift_def)
qed

lemma place_entry_columnNumber:
  "columnNumber (fst (place_entry cfg st i e))
     = js_rem (int i + padded_shift cfg st i e) (columnCount cfg) + 1"
  by (simp add: place_entry_def Let_def padded_shift_def)

lemma place_entry_rowNumber:
  "rowNumber (fst (place_entry cfg st i e))
     = (int i + padded_shift cfg st i e) div columnCount cfg + 1"
  by (simp add: place_entry_def Let_def padded_shift_def js_floor_div)

lemma place_entry_columnSpan:
  "columnSpan (fst (place_entry cfg st i e)) =
     (let span0 = (if columnSpan e < 1 then columnCount cfg else columnSpan e);
          colNo = columnNumber (fst (place_entry cfg st i e))
      in if colNo + span0 > columnCount cfg + 1 then columnCount cfg + 1 - colNo else span0)"
  by (simp add: place_entry_def Let_def)

lemma place_entry_columnShift:
  "columnShift (snd (place_entry cfg st i e)) =
     (if columnSpan (fst (place_entry cfg st i e)) > 1
      then padded_shift cfg st i e + (columnSpan (fst (place_entry cfg st i e)) - 1)
      else padded_shift cfg st i e)"
  by (simp add: place_entry_def Let_def padded_shift_def)

lemma place_entry_currentRowNumber:
  "currentRowNumber (snd (place_entry cfg st i e)) = rowNumber (fst (place_entry cfg st i e))"
  by (simp add: place_entry_def Let_def)

lemma place_entry_prevRows:
  "prevRowsTotalHeight (snd (place_entry cfg st i e)) = offset (fst (place_entry cfg st i e))"
  by (simp add: place_entry_def Let_def)

lemma place_entry_offset:
  "offset (fst (place_entry cfg st i e)) =
     (if rowNumber (fst (place_entry cfg st i e)) \<noteq> currentRowNumber st
      then prevRowsTotalHeight st + (currentRowMaxHeight st + gridGap cfg)
      else prevRowsTotalHeight st)"
  by (simp add: place_entry_def Let_def)

lemma place_entry_rowMax:
  "currentRowMaxHeight (snd (place_entry cfg st i e)) =
     max (if rowNumber (fst (place_entry cfg st i e)) \<noteq> currentRowNumber st
          then 0 else currentRowMaxHeight st)
         (height (fst (place_entry cfg st i e)))"
  by (simp add: place_entry_def Let_def)

lemma place_entry_carried:
  "id_item (fst (place_entry cfg st i e)) = id_item e"
  "injected (fst (place_entry cfg st i e)) = injected e"
  "width (fst (place_entry cfg st i e)) = width e"
  "newRow (fst (place_entry cfg st i e)) = newRow e"
  "renderComponent (fst (place_entry cfg st i e)) = renderComponent e"
  by (simp_all add: place_entry_def Let_def)


lemma place_entry_shift_mono:
  assumes cc: "1 \<le> columnCount cfg" and sh: "0 \<le> columnShift st"
  shows "padded_shift cfg st i e \<le> columnShift (snd (place_entry cfg st i e))"
    and "0 \<le> columnShift (snd (place_entry cfg st i e))"
proof -
  show a: "padded_shift cfg st i e \<le> columnShift (snd (place_entry cfg st i e))"
    by (simp add: place_entry_columnShift[of cfg st i e])
  show "0 \<le> columnShift (snd (place_entry cfg st i e))"
    using a padded_shift_ge[OF cc sh, of i e] sh by linarith
qed

lemma place_entry_row_lower:
  assumes cc: "1 \<le> columnCount cfg" and sh: "0 \<le> columnShift st"
  shows "row_floor cfg st i \<le> rowNumber (fst (place_entry cfg st i e))"
proof -
  have "int i + columnShift st \<le> int i + padded_shift cfg st i e"
    using padded_shift_ge[OF cc sh, of i e] by simp
  then have "(int i + columnShift st) div columnCount cfg
               \<le> (int i + padded_shift cfg st i e) div columnCount cfg"
    using cc by (simp add: zdiv_mono1)
  then show ?thesis by (simp add: row_floor_def place_entry_rowNumber)
qed

lemma place_entry_row_upper:
  assumes cc: "1 \<le> columnCount cfg" and sh: "0 \<le> columnShift st"
  shows "rowNumber (fst (place_entry cfg st i e)) \<le> row_floor cfg (snd (place_entry cfg st i e)) (Suc i)"
proof -
  have "int i + padded_shift cfg st i e \<le> int (Suc i) + columnShift (snd (place_entry cfg st i e))"
    using place_entry_shift_mono(1)[OF cc sh, of i e] by simp
  then have "(int i + padded_shift cfg st i e) div columnCount cfg
               \<le> (int (Suc i) + columnShift (snd (place_entry cfg st i e))) div columnCount cfg"
    using cc by (simp add: zdiv_mono1)
  then show ?thesis by (simp add: row_floor_def place_entry_rowNumber)
qed

lemma layout_cells_Cons:
  "layout_cells cfg st i (e # es) =
     (fst (place_entry cfg st i e) # fst (layout_cells cfg (snd (place_entry cfg st i e)) (Suc i) es),
      snd (layout_cells cfg (snd (place_entry cfg st i e)) (Suc i) es))"
  by (simp split: prod.splits)

declare layout_cells.simps(2) [simp del]


lemma layout_cells_length: "length (fst (layout_cells cfg st i es)) = length es"
  by (induction es arbitrary: st i) (simp_all add: layout_cells_Cons)

lemma layout_cells_carried:
  "map id_item (fst (layout_cells cfg st i es)) = map id_item es"
  "map injected (fst (layout_cells cfg st i es)) = map injected es"
  "map width (fst (layout_cells cfg st i es)) = map width es"
  "map newRow (fst (layout_cells cfg st i es)) = map newRow es"
  "map renderComponent (fst (layout_cells cfg st i es)) = map renderComponent es"
  by (induction es arbitrary: st i)
     (simp_all add: layout_cells_Cons place_entry_carried)

lemma cells_computeLayoutData:
  "cells (computeLayoutData (Some cfg)) = fst (layout_cells cfg pack_init 0 (entries cfg))"
  by (simp add: computeLayoutData_def split: prod.splits)

lemma totalHeight_computeLayoutData:
  "totalHeight (computeLayoutData (Some cfg)) =
     prevRowsTotalHeight (snd (layout_cells cfg pack_init 0 (entries cfg)))
       + currentRowMaxHeight (snd (layout_cells cfg pack_init 0 (entries cfg)))"
  by (simp add: computeLayoutData_def split: prod.splits)

lemma layout_cells_rows_ge:
  assumes "1 \<le> columnCount cfg" and "0 \<le> columnShift st"
    and "c \<in> set (fst (layout_cells cfg st i es))"
  shows "row_floor cfg st i \<le> rowNumber c"
  using assms
proof (induction es arbitrary: st i)
  case Nil
  then show ?case by simp
next
  case (Cons e es)
  let ?st1 = "snd (place_entry cfg st i e)"
  have lo: "row_floor cfg st i \<le> rowNumber (fst (place_entry cfg st i e))"
    by (rule place_entry_row_lower[OF Cons.prems(1,2)])
  have up: "rowNumber (fst (place_entry cfg st i e)) \<le> row_floor cfg ?st1 (Suc i)"
    by (rule place_entry_row_upper[OF Cons.prems(1,2)])
  have sh: "0 \<le> columnShift ?st1"
    by (rule place_entry_shift_mono(2)[OF Cons.prems(1,2)])
  from Cons.prems(3) consider
      (head) "c = fst (place_entry cfg st i e)"
    | (tail) "c \<in> set (fst (layout_cells cfg ?st1 (Suc i) es))"
    by (auto simp: layout_cells_Cons)
  then show ?case
  proof cases
    case head
    then show ?thesis using lo by simp
  next
    case tail
    have "row_floor cfg ?st1 (Suc i) \<le> rowNumber c"
      by (rule Cons.IH[OF Cons.prems(1) sh tail])
    then show ?thesis using lo up by linarith
  qed
qed






lemma pack_init_facts:
  "0 \<le> columnShift pack_init" "0 \<le> currentRowMaxHeight pack_init"
  "currentRowNumber pack_init \<le> row_floor cfg pack_init 0"
  "currentRowNumber pack_init = 1" "prevRowsTotalHeight pack_init = 0"
  "currentRowMaxHeight pack_init = 0"
  by (simp_all add: pack_init_def row_floor_def)


lemma layout_cells_Nil_iff: "fst (layout_cells cfg st i es) = [] \<longleftrightarrow> es = []"
  by (cases es) (simp_all add: layout_cells_Cons)

lemma layout_cells_final:
  assumes "es \<noteq> []"
  shows "prevRowsTotalHeight (snd (layout_cells cfg st i es))
           = offset (last (fst (layout_cells cfg st i es)))
         \<and> currentRowNumber (snd (layout_cells cfg st i es))
           = rowNumber (last (fst (layout_cells cfg st i es)))"
  using assms
proof (induction es arbitrary: st i)
  case Nil
  then show ?case by simp
next
  case (Cons e es)
  show ?case
  proof (cases "es = []")
    case True
    then show ?thesis
      by (simp add: layout_cells_Cons place_entry_prevRows place_entry_currentRowNumber)
  next
    case False
    then show ?thesis
      using Cons.IH[OF False] by (simp add: layout_cells_Cons layout_cells_Nil_iff)
  qed
qed

lemma last_row_single: "last_row [c] = [c]"
  by (simp add: last_row_def)

lemma last_in_last_row: "cs \<noteq> [] \<Longrightarrow> last cs \<in> set (last_row cs)"
  by (simp add: last_row_def)

lemma last_row_Cons:
  "cs \<noteq> [] \<Longrightarrow> last_row (c # cs) =
     (if rowNumber c = rowNumber (last cs) then c # last_row cs else last_row cs)"
  by (simp add: last_row_def)

lemma max_height_Cons:
  "cs \<noteq> [] \<Longrightarrow> max_height (c # cs) = max (height c) (max_height cs)"
  by (simp add: max_height_def)

lemma max_height_single: "max_height [c] = height c"
  by (simp add: max_height_def)

lemma layout_cells_final_rowmax:
  assumes "1 \<le> columnCount cfg" and "0 \<le> columnShift st"
    and "currentRowNumber st \<le> row_floor cfg st i"
    and "es \<noteq> []"
  shows "currentRowMaxHeight (snd (layout_cells cfg st i es))
           = max (if rowNumber (last (fst (layout_cells cfg st i es))) = currentRowNumber st
                  then currentRowMaxHeight st else 0)
                 (max_height (last_row (fst (layout_cells cfg st i es))))"
  using assms
proof (induction es arbitrary: st i)
  case Nil
  then show ?case by simp
next
  case (Cons e es)
  let ?h = "fst (place_entry cfg st i e)"
  let ?st1 = "snd (place_entry cfg st i e)"
  let ?cs = "fst (layout_cells cfg ?st1 (Suc i) es)"
  have step: "currentRowMaxHeight ?st1 =
     max (if rowNumber ?h \<noteq> currentRowNumber st then 0 else currentRowMaxHeight st) (height ?h)"
    by (rule place_entry_rowMax)
  show ?case
  proof (cases "es = []")
    case True
    then show ?thesis
      using step by (simp add: layout_cells_Cons last_row_single max_height_single)
  next
    case False
    have ne: "?cs \<noteq> []" using False by (simp add: layout_cells_Nil_iff)
    have lo: "row_floor cfg st i \<le> rowNumber ?h"
      by (rule place_entry_row_lower[OF Cons.prems(1,2)])
    have up: "rowNumber ?h \<le> row_floor cfg ?st1 (Suc i)"
      by (rule place_entry_row_upper[OF Cons.prems(1,2)])
    have sh: "0 \<le> columnShift ?st1"
      by (rule place_entry_shift_mono(2)[OF Cons.prems(1,2)])
    have cur: "currentRowNumber ?st1 = rowNumber ?h"
      by (rule place_entry_currentRowNumber)
    have cur1: "currentRowNumber ?st1 \<le> row_floor cfg ?st1 (Suc i)"
      using cur up by simp
    have ih: "currentRowMaxHeight (snd (layout_cells cfg ?st1 (Suc i) es))
           = max (if rowNumber (last ?cs) = currentRowNumber ?st1
                  then currentRowMaxHeight ?st1 else 0)
                 (max_height (last_row ?cs))"
      by (rule Cons.IH[OF Cons.prems(1) sh cur1 False])
    have "last ?cs \<in> set ?cs" using ne by simp
    then have rl: "row_floor cfg ?st1 (Suc i) \<le> rowNumber (last ?cs)"
      by (rule layout_cells_rows_ge[OF Cons.prems(1) sh])
    have lrne: "last_row ?cs \<noteq> []"
      using last_in_last_row[OF ne] by auto
    show ?thesis
    proof (cases "rowNumber (last ?cs) = rowNumber ?h")
      case True
      have "currentRowMaxHeight (snd (layout_cells cfg ?st1 (Suc i) es))
              = max (currentRowMaxHeight ?st1) (max_height (last_row ?cs))"
        using ih True cur by simp
      also have "\<dots> = max (if rowNumber ?h = currentRowNumber st then currentRowMaxHeight st else 0)
                          (max (height ?h) (max_height (last_row ?cs)))"
        using step by (simp add: max.assoc)
      also have "max (height ?h) (max_height (last_row ?cs)) = max_height (last_row (?h # ?cs))"
        using True ne lrne by (simp add: last_row_Cons max_height_Cons)
      finally show ?thesis
        using True ne by (simp add: layout_cells_Cons)
    next
      case False
      have gt: "rowNumber (last ?cs) \<noteq> currentRowNumber st"
        using False rl up lo Cons.prems(3) by linarith
      have "currentRowMaxHeight (snd (layout_cells cfg ?st1 (Suc i) es))
              = max 0 (max_height (last_row ?cs))"
        using ih False cur by simp
      moreover have "last_row (?h # ?cs) = last_row ?cs"
        using False ne by (simp add: last_row_Cons)
      ultimately show ?thesis
        using gt ne by (simp add: layout_cells_Cons)
    qed
  qed
qed

lemma c7_total:
  assumes cc: "1 \<le> columnCount cfg" and ne: "entries cfg \<noteq> []"
  shows "totalHeight (computeLayoutData (Some cfg))
           = offset (last (cells (computeLayoutData (Some cfg))))
             + max 0 (max_height (last_row (cells (computeLayoutData (Some cfg)))))"
proof -
  have "currentRowMaxHeight (snd (layout_cells cfg pack_init 0 (entries cfg)))
          = max 0 (max_height (last_row (fst (layout_cells cfg pack_init 0 (entries cfg)))))"
    using layout_cells_final_rowmax[OF cc pack_init_facts(1) pack_init_facts(3) ne]
    by (simp add: pack_init_facts(6))
  then show ?thesis
    using layout_cells_final[OF ne, of cfg pack_init 0]
    by (simp add: totalHeight_computeLayoutData cells_computeLayoutData)
qed

lemma place_entry_height:
  "height (fst (place_entry cfg st i e)) =
     (let span0 = (if columnSpan e < 1 then columnCount cfg else columnSpan e);
          colNo = columnNumber (fst (place_entry cfg st i e))
      in of_int (js_round
           (if colNo + span0 > columnCount cfg + 1
            then height e * (1 - of_int (colNo + span0 - columnCount cfg - 1) / of_int span0)
            else height e)))"
  by (simp add: place_entry_def Let_def)

lemma place_entry_gap_indep:
  assumes "columnShift st' = columnShift st" "currentRowNumber st' = currentRowNumber st"
    "currentRowMaxHeight st' = currentRowMaxHeight st"
  shows "rowNumber (fst (place_entry (cfg\<lparr>gridGap := g\<rparr>) st' i e)) = rowNumber (fst (place_entry cfg st i e))"
    and "columnShift (snd (place_entry (cfg\<lparr>gridGap := g\<rparr>) st' i e)) = columnShift (snd (place_entry cfg st i e))"
    and "currentRowNumber (snd (place_entry (cfg\<lparr>gridGap := g\<rparr>) st' i e)) = currentRowNumber (snd (place_entry cfg st i e))"
    and "currentRowMaxHeight (snd (place_entry (cfg\<lparr>gridGap := g\<rparr>) st' i e)) = currentRowMaxHeight (snd (place_entry cfg st i e))"
proof -
  let ?c' = "fst (place_entry (cfg\<lparr>gridGap := g\<rparr>) st' i e)"
  let ?c = "fst (place_entry cfg st i e)"
  have ps: "padded_shift (cfg\<lparr>gridGap := g\<rparr>) st' i e = padded_shift cfg st i e"
    using assms(1) by (simp add: padded_shift_def)
  have col: "columnNumber ?c' = columnNumber ?c"
    using ps by (simp add: place_entry_columnNumber)
  show row: "rowNumber ?c' = rowNumber ?c"
    using ps by (simp add: place_entry_rowNumber)
  have span: "columnSpan ?c' = columnSpan ?c"
    using col
    by (simp add: place_entry_columnSpan[of "cfg\<lparr>gridGap := g\<rparr>" st' i e]
          place_entry_columnSpan[of cfg st i e] Let_def)
  have hgt: "height ?c' = height ?c"
    using col
    by (simp add: place_entry_height[of "cfg\<lparr>gridGap := g\<rparr>" st' i e]
          place_entry_height[of cfg st i e] Let_def)
  show "columnShift (snd (place_entry (cfg\<lparr>gridGap := g\<rparr>) st' i e))
          = columnShift (snd (place_entry cfg st i e))"
    using ps span
    by (simp add: place_entry_columnShift[of "cfg\<lparr>gridGap := g\<rparr>" st' i e]
          place_entry_columnShift[of cfg st i e])
  show "currentRowNumber (snd (place_entry (cfg\<lparr>gridGap := g\<rparr>) st' i e))
          = currentRowNumber (snd (place_entry cfg st i e))"
    using row by (simp add: place_entry_currentRowNumber)
  show "currentRowMaxHeight (snd (place_entry (cfg\<lparr>gridGap := g\<rparr>) st' i e))
          = currentRowMaxHeight (snd (place_entry cfg st i e))"
    using row hgt assms(2,3)
    by (simp add: place_entry_rowMax[of "cfg\<lparr>gridGap := g\<rparr>" st' i e]
          place_entry_rowMax[of cfg st i e])
qed

lemma layout_cells_gap_indep:
  assumes "columnShift st' = columnShift st" "currentRowNumber st' = currentRowNumber st"
    "currentRowMaxHeight st' = currentRowMaxHeight st"
  shows "map rowNumber (fst (layout_cells (cfg\<lparr>gridGap := g\<rparr>) st' i es))
           = map rowNumber (fst (layout_cells cfg st i es))
         \<and> currentRowMaxHeight (snd (layout_cells (cfg\<lparr>gridGap := g\<rparr>) st' i es))
           = currentRowMaxHeight (snd (layout_cells cfg st i es))"
  using assms
proof (induction es arbitrary: st st' i)
  case Nil
  then show ?case by simp
next
  case (Cons e es)
  note pe = place_entry_gap_indep[OF Cons.prems, where cfg = cfg and g = g and i = i and e = e]
  show ?case
    using Cons.IH[OF pe(2) pe(3) pe(4)] pe(1) by (simp add: layout_cells_Cons)
qed

lemma layout_cells_same_row_prev:
  assumes "\<forall>c \<in> set (fst (layout_cells cfg st i es)). rowNumber c = currentRowNumber st"
  shows "prevRowsTotalHeight (snd (layout_cells cfg st i es)) = prevRowsTotalHeight st"
  using assms
proof (induction es arbitrary: st i)
  case Nil
  then show ?case by simp
next
  case (Cons e es)
  let ?h = "fst (place_entry cfg st i e)"
  let ?st1 = "snd (place_entry cfg st i e)"
  have r: "rowNumber ?h = currentRowNumber st"
    using Cons.prems by (simp add: layout_cells_Cons)
  have cur: "currentRowNumber ?st1 = currentRowNumber st"
    using r by (simp add: place_entry_currentRowNumber)
  have prev: "prevRowsTotalHeight ?st1 = prevRowsTotalHeight st"
    using r by (simp add: place_entry_prevRows place_entry_offset[of cfg st i e])
  have "\<forall>c \<in> set (fst (layout_cells cfg ?st1 (Suc i) es)). rowNumber c = currentRowNumber ?st1"
    using Cons.prems cur by (simp add: layout_cells_Cons)
  then have "prevRowsTotalHeight (snd (layout_cells cfg ?st1 (Suc i) es)) = prevRowsTotalHeight ?st1"
    by (rule Cons.IH)
  then show ?case using prev by (simp add: layout_cells_Cons)
qed

lemma first_row_is_1:
  assumes cc: "1 \<le> columnCount cfg"
  shows "rowNumber (fst (place_entry cfg pack_init 0 e)) = 1"
  using cc by (simp add: place_entry_rowNumber padded_shift_def js_rem_nonneg pack_init_def)

lemma c7_gap:
  assumes cc: "1 \<le> columnCount cfg"
    and one: "\<forall>c \<in> set (cells (computeLayoutData (Some cfg))).
               \<forall>d \<in> set (cells (computeLayoutData (Some cfg))). rowNumber c = rowNumber d"
  shows "totalHeight (computeLayoutData (Some (cfg\<lparr>gridGap := g\<rparr>)))
           = totalHeight (computeLayoutData (Some cfg))"
proof -
  let ?L = "layout_cells cfg pack_init 0 (entries cfg)"
  let ?L' = "layout_cells (cfg\<lparr>gridGap := g\<rparr>) pack_init 0 (entries cfg)"
  have gi: "map rowNumber (fst ?L') = map rowNumber (fst ?L)
            \<and> currentRowMaxHeight (snd ?L') = currentRowMaxHeight (snd ?L)"
    by (rule layout_cells_gap_indep) simp_all
  have rows1: "\<forall>c \<in> set (fst ?L). rowNumber c = currentRowNumber pack_init"
  proof (cases "entries cfg")
    case Nil
    then show ?thesis by simp
  next
    case (Cons e es)
    then have mem: "fst (place_entry cfg pack_init 0 e) \<in> set (fst ?L)"
      by (simp add: layout_cells_Cons)
    have "\<forall>c \<in> set (fst ?L). \<forall>d \<in> set (fst ?L). rowNumber c = rowNumber d"
      using one by (simp only: cells_computeLayoutData)
    then have "\<forall>c \<in> set (fst ?L). rowNumber c = rowNumber (fst (place_entry cfg pack_init 0 e))"
      using mem by blast
    then show ?thesis
      using first_row_is_1[OF cc, of e] by (simp only: pack_init_facts(4))
  qed
  have rows1': "\<forall>c \<in> set (fst ?L'). rowNumber c = currentRowNumber pack_init"
  proof
    fix c assume "c \<in> set (fst ?L')"
    then have "rowNumber c \<in> set (map rowNumber (fst ?L))"
      using gi by (metis image_eqI list.set_map)
    then show "rowNumber c = currentRowNumber pack_init"
      using rows1 by auto
  qed
  have "prevRowsTotalHeight (snd ?L) = prevRowsTotalHeight pack_init"
    by (rule layout_cells_same_row_prev[OF rows1])
  moreover have "prevRowsTotalHeight (snd ?L') = prevRowsTotalHeight pack_init"
    by (rule layout_cells_same_row_prev[OF rows1'])
  ultimately show ?thesis
    using gi by (simp add: totalHeight_computeLayoutData)
qed

section \<open>Sample layouts\<close>

lemmas step_eval = place_entry_def Let_def js_rem_nonneg js_floor_def js_round_def
  pack_init_def tile_def placed_def

lemma two_rows_layout:
  "layout_cells (two_rows_config g) pack_init 0 (entries (two_rows_config g)) =
     ([placed (tile ''a'' 10 1 False) 1 1 0, placed (tile ''b'' 10 1 False) 1 2 (10 + g)],
      \<lparr>currentRowNumber = 2, prevRowsTotalHeight = 10 + g, currentRowMaxHeight = 10,
       columnShift = 0\<rparr>)"
proof -
  have s1: "place_entry (two_rows_config g) pack_init 0 (tile ''a'' 10 1 False) =
      (placed (tile ''a'' 10 1 False) 1 1 0,
       \<lparr>currentRowNumber = 1, prevRowsTotalHeight = 0, currentRowMaxHeight = 10,
        columnShift = 0\<rparr>)"
    by (simp add: step_eval two_rows_config_def)
  have s2: "place_entry (two_rows_config g)
       \<lparr>currentRowNumber = 1, prevRowsTotalHeight = 0, currentRowMaxHeight = 10,
        columnShift = 0\<rparr> (Suc 0) (tile ''b'' 10 1 False) =
      (placed (tile ''b'' 10 1 False) 1 2 (10 + g),
       \<lparr>currentRowNumber = 2, prevRowsTotalHeight = 10 + g, currentRowMaxHeight = 10,
        columnShift = 0\<rparr>)"
    by (simp add: step_eval two_rows_config_def)
  have e: "entries (two_rows_config g) = [tile ''a'' 10 1 False, tile ''b'' 10 1 False]"
    by (simp add: two_rows_config_def)
  show ?thesis
    unfolding e by (simp only: layout_cells.simps s1 s2 prod.case)
qed

lemma one_row_layout:
  "layout_cells (one_row_config g) pack_init 0 (entries (one_row_config g)) =
     ([placed (tile ''a'' 10 1 False) 1 1 0, placed (tile ''b'' 30 1 False) 2 1 0],
      \<lparr>currentRowNumber = 1, prevRowsTotalHeight = 0, currentRowMaxHeight = 30,
       columnShift = 0\<rparr>)"
proof -
  have s1: "place_entry (one_row_config g) pack_init 0 (tile ''a'' 10 1 False) =
      (placed (tile ''a'' 10 1 False) 1 1 0,
       \<lparr>currentRowNumber = 1, prevRowsTotalHeight = 0, currentRowMaxHeight = 10,
        columnShift = 0\<rparr>)"
    by (simp add: step_eval one_row_config_def)
  have s2: "place_entry (one_row_config g)
       \<lparr>currentRowNumber = 1, prevRowsTotalHeight = 0, currentRowMaxHeight = 10,
        columnShift = 0\<rparr> (Suc 0) (tile ''b'' 30 1 False) =
      (placed (tile ''b'' 30 1 False) 2 1 0,
       \<lparr>currentRowNumber = 1, prevRowsTotalHeight = 0, currentRowMaxHeight = 30,
        columnShift = 0\<rparr>)"
    by (simp add: step_eval one_row_config_def)
  have e: "entries (one_row_config g) = [tile ''a'' 10 1 False, tile ''b'' 30 1 False]"
    by (simp add: one_row_config_def)
  show ?thesis
    unfolding e by (simp only: layout_cells.simps s1 s2 prod.case)
qed

lemma negative_height_layout:
  "layout_cells negative_height_config pack_init 0 (entries negative_height_config) =
     ([placed (tile ''a'' (- 10) 1 False) 1 1 0],
      \<lparr>currentRowNumber = 1, prevRowsTotalHeight = 0, currentRowMaxHeight = 0,
       columnShift = 0\<rparr>)"
proof -
  have s1: "place_entry negative_height_config pack_init 0 (tile ''a'' (- 10) 1 False) =
      (placed (tile ''a'' (- 10) 1 False) 1 1 0,
       \<lparr>currentRowNumber = 1, prevRowsTotalHeight = 0, currentRowMaxHeight = 0,
        columnShift = 0\<rparr>)"
    by (simp add: step_eval negative_height_config_def)
  have e: "entries negative_height_config = [tile ''a'' (- 10) 1 False]"
    by (simp add: negative_height_config_def)
  show ?thesis
    unfolding e by (simp only: layout_cells.simps s1 prod.case)
qed


section \<open>Arithmetic of the windower\<close>




section \<open>Properties of the grid packer\<close>


text \<open>
  C10 (frame). For every config the grid packer returns one cell per entry, in the order
  of the entries, and a cell has the identifier, the payload, the width, the new-row flag
  and the render component of its entry: only the column number, the row number, the
  offset, the height and the column span are computed. For no entries, and for no config,
  it returns no cells and a total height of 0.
\<close>

theorem computeLayoutData_frame:
  "length (cells (computeLayoutData (Some cfg))) = length (entries cfg)
   \<and> map id_item (cells (computeLayoutData (Some cfg))) = map id_item (entries cfg)
   \<and> map injected (cells (computeLayoutData (Some cfg))) = map injected (entries cfg)
   \<and> map width (cells (computeLayoutData (Some cfg))) = map width (entries cfg)
   \<and> map newRow (cells (computeLayoutData (Some cfg))) = map newRow (entries cfg)
   \<and> map renderComponent (cells (computeLayoutData (Some cfg)))
         = map renderComponent (entries cfg)
   \<and> computeLayoutData (Some (cfg\<lparr>entries := []\<rparr>)) = \<lparr>totalHeight = 0, cells = []\<rparr>
   \<and> computeLayoutData None = \<lparr>totalHeight = 0, cells = ([] :: 'p Cell list)\<rparr>"
proof -
  have "computeLayoutData (Some (cfg\<lparr>entries := []\<rparr>)) = \<lparr>totalHeight = 0, cells = []\<rparr>"
    by (simp add: computeLayoutData_def pack_init_def)
  moreover have "computeLayoutData None = \<lparr>totalHeight = 0, cells = ([] :: 'p Cell list)\<rparr>"
    by (simp add: computeLayoutData_def)
  ultimately show ?thesis
    by (simp add: cells_computeLayoutData layout_cells_length layout_cells_carried)
qed




text \<open>
  C7 (total height), as the code has it. For every config with a column count of at
  least 1 and at least one entry, the total height is the offset of the last row plus the
  larger of 0 and the maximum cell height of that row; no gap follows the last row. It is
  the offset of the last row plus the maximum cell height of that row whenever that
  maximum is not negative. For no entries the total height is 0. When all cells are in
  one row, the total height does not depend on the grid gap.
\<close>

theorem computeLayoutData_totalHeight:
  assumes "1 \<le> columnCount cfg"
  shows "(entries cfg \<noteq> [] \<longrightarrow>
            totalHeight (computeLayoutData (Some cfg))
              = offset (last (cells (computeLayoutData (Some cfg))))
                + max 0 (max_height (last_row (cells (computeLayoutData (Some cfg))))))
         \<and> (entries cfg \<noteq> []
              \<and> 0 \<le> max_height (last_row (cells (computeLayoutData (Some cfg)))) \<longrightarrow>
            totalHeight (computeLayoutData (Some cfg))
              = offset (last (cells (computeLayoutData (Some cfg))))
                + max_height (last_row (cells (computeLayoutData (Some cfg)))))
         \<and> (entries cfg = [] \<longrightarrow> totalHeight (computeLayoutData (Some cfg)) = 0)
         \<and> ((\<forall>c \<in> set (cells (computeLayoutData (Some cfg))).
               \<forall>d \<in> set (cells (computeLayoutData (Some cfg))). rowNumber c = rowNumber d) \<longrightarrow>
            totalHeight (computeLayoutData (Some (cfg\<lparr>gridGap := g\<rparr>)))
              = totalHeight (computeLayoutData (Some cfg)))"
proof -
  have a: "entries cfg \<noteq> [] \<Longrightarrow>
            totalHeight (computeLayoutData (Some cfg))
              = offset (last (cells (computeLayoutData (Some cfg))))
                + max 0 (max_height (last_row (cells (computeLayoutData (Some cfg)))))"
    by (rule c7_total[OF assms])
  have b: "entries cfg = [] \<Longrightarrow> totalHeight (computeLayoutData (Some cfg)) = 0"
    by (simp add: totalHeight_computeLayoutData pack_init_def)
  have c: "(\<forall>c \<in> set (cells (computeLayoutData (Some cfg))).
               \<forall>d \<in> set (cells (computeLayoutData (Some cfg))). rowNumber c = rowNumber d) \<Longrightarrow>
            totalHeight (computeLayoutData (Some (cfg\<lparr>gridGap := g\<rparr>)))
              = totalHeight (computeLayoutData (Some cfg))"
    by (rule c7_gap[OF assms])
  have a': "totalHeight (computeLayoutData (Some cfg))
              = offset (last (cells (computeLayoutData (Some cfg))))
                + max_height (last_row (cells (computeLayoutData (Some cfg))))"
    if "entries cfg \<noteq> []"
      and "0 \<le> max_height (last_row (cells (computeLayoutData (Some cfg))))"
    using a[OF that(1)] that(2) by (simp only: max_absorb2)
  show ?thesis
    using a a' b c by blast
qed

lemma two_rows_eval:
  "cells (computeLayoutData (Some (two_rows_config g)))
     = [placed (tile ''a'' 10 1 False) 1 1 0, placed (tile ''b'' 10 1 False) 1 2 (10 + g)]"
  "totalHeight (computeLayoutData (Some (two_rows_config g))) = 20 + g"
  by (simp_all add: cells_computeLayoutData totalHeight_computeLayoutData two_rows_layout)

lemma one_row_eval:
  "cells (computeLayoutData (Some (one_row_config g)))
     = [placed (tile ''a'' 10 1 False) 1 1 0, placed (tile ''b'' 30 1 False) 2 1 0]"
  "totalHeight (computeLayoutData (Some (one_row_config g))) = 30"
  by (simp_all add: cells_computeLayoutData totalHeight_computeLayoutData one_row_layout)

lemma negative_height_eval:
  "cells (computeLayoutData (Some negative_height_config))
     = [placed (tile ''a'' (- 10) 1 False) 1 1 0]"
  "totalHeight (computeLayoutData (Some negative_height_config)) = 0"
  by (simp_all add: cells_computeLayoutData totalHeight_computeLayoutData negative_height_layout)

lemma placed_simps:
  "rowNumber (placed e col row off) = row" "columnNumber (placed e col row off) = col"
  "offset (placed e col row off) = off" "height (placed e col row off) = height e"
  "columnSpan (placed e col row off) = columnSpan e"
  by (simp_all add: placed_def)

lemma tile_simps: "height (tile i h sp nr) = h" "columnSpan (tile i h sp nr) = sp"
  by (simp_all add: tile_def)

theorem computeLayoutData_totalHeight_witness:
  "1 \<le> columnCount (two_rows_config 10) \<and> entries (two_rows_config 10) \<noteq> []
   \<and> 0 \<le> max_height (last_row (cells (computeLayoutData (Some (two_rows_config 10)))))
   \<and> totalHeight (computeLayoutData (Some (two_rows_config 10))) = 20 + 10
   \<and> 1 \<le> columnCount (one_row_config 5)
   \<and> map rowNumber (cells (computeLayoutData (Some (one_row_config 5)))) = [1, 1]
   \<and> totalHeight (computeLayoutData (Some ((one_row_config 5)\<lparr>gridGap := 50\<rparr>))) = 30
   \<and> 1 \<le> columnCount ((one_row_config 5)\<lparr>entries := []\<rparr>)
   \<and> entries ((one_row_config 5)\<lparr>entries := []\<rparr>) = []
   \<and> totalHeight (computeLayoutData (Some ((one_row_config 5)\<lparr>entries := []\<rparr>))) = 0"
proof -
  have cc2: "1 \<le> columnCount (two_rows_config 10)" by (simp add: two_rows_config_def)
  have cc1: "1 \<le> columnCount (one_row_config 5)" by (simp add: one_row_config_def)
  have cc0: "1 \<le> columnCount ((one_row_config 5)\<lparr>entries := []\<rparr>)"
    by (simp add: one_row_config_def)
  have ne: "entries (two_rows_config 10) \<noteq> []" by (simp add: two_rows_config_def)
  have mh: "max_height (last_row (cells (computeLayoutData (Some (two_rows_config 10))))) = 10"
    by (simp add: two_rows_eval last_row_def max_height_def placed_simps tile_simps)
  have off: "offset (last (cells (computeLayoutData (Some (two_rows_config 10))))) = 20"
    by (simp add: two_rows_eval placed_simps)
  have one: "\<forall>c \<in> set (cells (computeLayoutData (Some (one_row_config 5)))).
        \<forall>d \<in> set (cells (computeLayoutData (Some (one_row_config 5)))). rowNumber c = rowNumber d"
    by (simp add: one_row_eval placed_simps)
  have mh0: "0 \<le> max_height (last_row (cells (computeLayoutData (Some (two_rows_config 10)))))"
    by (simp only: mh)
  have "totalHeight (computeLayoutData (Some (two_rows_config 10)))
          = offset (last (cells (computeLayoutData (Some (two_rows_config 10)))))
            + max_height (last_row (cells (computeLayoutData (Some (two_rows_config 10)))))"
    using computeLayoutData_totalHeight[OF cc2, of 0, THEN conjunct2, THEN conjunct1] ne mh0
    by blast
  then have t2: "totalHeight (computeLayoutData (Some (two_rows_config 10))) = 20 + 10"
    by (simp only: mh off)
  have "totalHeight (computeLayoutData (Some ((one_row_config 5)\<lparr>gridGap := 50\<rparr>)))
          = totalHeight (computeLayoutData (Some (one_row_config 5)))"
    using computeLayoutData_totalHeight[OF cc1, of 50, THEN conjunct2, THEN conjunct2,
        THEN conjunct2] one
    by blast
  then have t1: "totalHeight (computeLayoutData (Some ((one_row_config 5)\<lparr>gridGap := 50\<rparr>))) = 30"
    by (simp only: one_row_eval(2))
  have e0: "entries ((one_row_config 5)\<lparr>entries := []\<rparr>) = []" by simp
  have t0: "totalHeight (computeLayoutData (Some ((one_row_config 5)\<lparr>entries := []\<rparr>))) = 0"
    using computeLayoutData_totalHeight[OF cc0, of 0, THEN conjunct2, THEN conjunct2,
        THEN conjunct1] e0
    by blast
  have rows: "map rowNumber (cells (computeLayoutData (Some (one_row_config 5)))) = [1, 1]"
    by (simp add: one_row_eval placed_simps)
  show ?thesis
    using cc2 ne mh0 t2 cc1 rows t1 cc0 e0 t0 by blast
qed

theorem totalHeight_negative_height_counterexample:
  "1 \<le> columnCount negative_height_config
   \<and> totalHeight (computeLayoutData (Some negative_height_config))
       \<noteq> offset (last (cells (computeLayoutData (Some negative_height_config))))
           + max_height (last_row (cells (computeLayoutData (Some negative_height_config))))"
proof -
  have "1 \<le> columnCount negative_height_config"
    by (simp add: negative_height_config_def)
  moreover have "totalHeight (computeLayoutData (Some negative_height_config))
       \<noteq> offset (last (cells (computeLayoutData (Some negative_height_config))))
           + max_height (last_row (cells (computeLayoutData (Some negative_height_config))))"
    by (simp add: negative_height_eval last_row_def max_height_def placed_simps tile_simps)
  ultimately show ?thesis by blast
qed




section \<open>Properties of the loading state machine\<close>

lemma computeContainerData_frame:
  "updateLock (computeContainerData sample s) = updateLock s"
  "bottomReached (computeContainerData sample s) = bottomReached s"
  "pending (computeContainerData sample s) = pending s"
  "fetchLog (computeContainerData sample s) = fetchLog s"
  by (simp_all add: computeContainerData_def split: option.splits)

lemma debugLog_frame:
  "updateLock (debugLog c m s) = updateLock s"
  "bottomReached (debugLog c m s) = bottomReached s"
  "pending (debugLog c m s) = pending s"
  "fetchLog (debugLog c m s) = fetchLog s"
  "containerData (debugLog c m s) = containerData s"
  by (simp_all add: debugLog_def)

lemma catch_log_frame:
  "updateLock (catch_log (r, s)) = updateLock s"
  "bottomReached (catch_log (r, s)) = bottomReached s"
  "pending (catch_log (r, s)) = pending s"
  "fetchLog (catch_log (r, s)) = fetchLog s"
  "containerData (catch_log (r, s)) = containerData s"
  by (simp_all add: catch_log_def split: outcome.splits option.splits)

lemma catch_log_frame':
  "updateLock (catch_log p) = updateLock (snd p)"
  "bottomReached (catch_log p) = bottomReached (snd p)"
  "pending (catch_log p) = pending (snd p)"
  "fetchLog (catch_log p) = fetchLog (snd p)"
  by (cases p; simp add: catch_log_frame)+

lemma loadMoreDataAsync_eq:
  "loadMoreDataAsync props sample s =
     (if starts_fetch props sample s
      then (Awaiting,
            invoke_updateFunction
              (debugLog (debug props) ''Loading next batch''
                 ((computeContainerData sample s)\<lparr>updateLock := True\<rparr>)))
      else if elementSize (containerData (computeContainerData sample s)) = None
      then (Thrown (Some ''TypeError''), computeContainerData sample s)
      else (Returned, computeContainerData sample s))"
proof (cases "elementSize (containerData (computeContainerData sample s))")
  case None
  then show ?thesis
    by (simp add: loadMoreDataAsync_def Let_def starts_fetch_def trigger_condition_def)
next
  case (Some es)
  then show ?thesis
    by (simp add: loadMoreDataAsync_def Let_def starts_fetch_def trigger_condition_def
          computeContainerData_frame)
qed

lemma loadMoreDataAsync_starts:
  assumes "starts_fetch props sample s"
  shows "fst (loadMoreDataAsync props sample s) = Awaiting"
    and "updateLock (snd (loadMoreDataAsync props sample s))"
    and "bottomReached (snd (loadMoreDataAsync props sample s)) = bottomReached s"
    and "pending (snd (loadMoreDataAsync props sample s)) = Suc (pending s)"
    and "fetchLog (snd (loadMoreDataAsync props sample s)) = fetchLog s @ [True]"
  using assms
  by (simp_all add: loadMoreDataAsync_eq invoke_updateFunction_def debugLog_frame
        computeContainerData_frame)

lemma loadMoreDataAsync_idle:
  assumes "\<not> starts_fetch props sample s"
  shows "fst (loadMoreDataAsync props sample s) \<noteq> Awaiting"
    and "updateLock (snd (loadMoreDataAsync props sample s)) = updateLock s"
    and "bottomReached (snd (loadMoreDataAsync props sample s)) = bottomReached s"
    and "pending (snd (loadMoreDataAsync props sample s)) = pending s"
    and "fetchLog (snd (loadMoreDataAsync props sample s)) = fetchLog s"
  using assms
  by (simp_all add: loadMoreDataAsync_eq computeContainerData_frame)

lemma starts_fetch_unlocked: "starts_fetch props sample s \<Longrightarrow> \<not> updateLock s \<and> \<not> bottomReached s"
  by (simp add: starts_fetch_def)

lemma step_single_flight:
  assumes "single_flight s" and "step props e s = Some s'"
  shows "single_flight s'"
proof (cases e)
  case (Mounted sample)
  then show ?thesis
    using assms by (auto simp add: single_flight_def computeContainerData_frame)
next
  case (NextTick sample)
  then have s': "s' = catch_log (loadMoreDataAsync props sample s)"
    using assms(2) by (simp add: loadMoreData_def)
  show ?thesis
  proof (cases "starts_fetch props sample s")
    case True
    then have "pending s = 0"
      using assms(1) starts_fetch_unlocked[OF True] by (auto simp add: single_flight_def)
    then show ?thesis
      using assms(1) loadMoreDataAsync_starts[OF True]
      by (auto simp add: s' single_flight_def catch_log_frame')
  next
    case False
    then show ?thesis
      using assms(1) loadMoreDataAsync_idle[OF False]
      by (auto simp add: s' single_flight_def catch_log_frame')
  qed
next
  case (Resize sample)
  then have s': "s' = catch_log (loadMoreDataAsync props sample s)"
    using assms(2) by (simp add: loadMoreData_def resize_def)
  show ?thesis
  proof (cases "starts_fetch props sample s")
    case True
    then have "pending s = 0"
      using assms(1) starts_fetch_unlocked[OF True] by (auto simp add: single_flight_def)
    then show ?thesis
      using assms(1) loadMoreDataAsync_starts[OF True]
      by (auto simp add: s' single_flight_def catch_log_frame')
  next
    case False
    then show ?thesis
      using assms(1) loadMoreDataAsync_idle[OF False]
      by (auto simp add: s' single_flight_def catch_log_frame')
  qed
next
  case (Scroll sample)
  then have s': "s' = catch_log (loadMoreDataAsync props sample s)"
    using assms(2) by (simp add: loadMoreData_def scroll_handler_def)
  show ?thesis
  proof (cases "starts_fetch props sample s")
    case True
    then have "pending s = 0"
      using assms(1) starts_fetch_unlocked[OF True] by (auto simp add: single_flight_def)
    then show ?thesis
      using assms(1) loadMoreDataAsync_starts[OF True]
      by (auto simp add: s' single_flight_def catch_log_frame')
  next
    case False
    then show ?thesis
      using assms(1) loadMoreDataAsync_idle[OF False]
      by (auto simp add: s' single_flight_def catch_log_frame')
  qed
next
  case (ResetGrid sample)
  let ?t = "s\<lparr>bottomReached := False\<rparr>"
  have s': "s' = catch_log (loadMoreDataAsync props sample ?t)"
    using assms(2) ResetGrid by (simp add: loadMoreData_def resetGrid_def)
  have t: "single_flight ?t" using assms(1) by (auto simp add: single_flight_def)
  show ?thesis
  proof (cases "starts_fetch props sample ?t")
    case True
    then have "pending ?t = 0"
      using t starts_fetch_unlocked[OF True] by (auto simp add: single_flight_def)
    then show ?thesis
      using t loadMoreDataAsync_starts[OF True]
      by (auto simp add: s' single_flight_def catch_log_frame')
  next
    case False
    then show ?thesis
      using t loadMoreDataAsync_idle[OF False]
      by (auto simp add: s' single_flight_def catch_log_frame')
  qed
next
  case (FetchResolved isLastBatch sample)
  let ?t = "(if isLastBatch
             then (debugLog (debug props) ''Bottom reached'' (s\<lparr>pending := pending s - 1\<rparr>))
                    \<lparr>bottomReached := True\<rparr>
             else s\<lparr>pending := pending s - 1\<rparr>)\<lparr>updateLock := False\<rparr>"
  have p: "pending s = 1"
    using assms FetchResolved by (auto simp add: single_flight_def split: if_splits)
  have s': "s' = catch_log (loadMoreDataAsync props sample ?t)"
    using assms(2) FetchResolved p by (auto simp add: loadMoreDataAsync_resume_def Let_def)
  have t: "pending ?t = 0" "fetchLog ?t = fetchLog s" "\<not> updateLock ?t"
    using p by (simp_all add: debugLog_frame)
  show ?thesis
  proof (cases "starts_fetch props sample ?t")
    case True
    show ?thesis
      using assms(1) t loadMoreDataAsync_starts[OF True]
      by (auto simp add: s' single_flight_def catch_log_frame')
  next
    case False
    show ?thesis
      using assms(1) t loadMoreDataAsync_idle[OF False]
      by (auto simp add: s' single_flight_def catch_log_frame')
  qed
next
  case (FetchRejected err)
  then show ?thesis
    using assms by (auto simp add: single_flight_def catch_log_frame split: if_splits)
qed

lemma run_single_flight:
  assumes "single_flight s" and "run props evs s = Some s'"
  shows "single_flight s'"
  using assms
proof (induction evs arbitrary: s)
  case Nil
  then show ?case by simp
next
  case (Cons e evs)
  then obtain t where t: "step props e s = Some t" and r: "run props evs t = Some s'"
    by (auto split: option.splits)
  show ?case
    by (rule Cons.IH[OF step_single_flight[OF Cons.prems(1) t] r])
qed

lemma initial_single_flight: "single_flight initial_state"
  by (simp add: single_flight_def initial_state_def)

lemma loadMoreData_frame:
  "updateLock (loadMoreData props sample s) = updateLock (snd (loadMoreDataAsync props sample s))"
  "bottomReached (loadMoreData props sample s) = bottomReached (snd (loadMoreDataAsync props sample s))"
  "pending (loadMoreData props sample s) = pending (snd (loadMoreDataAsync props sample s))"
  "fetchLog (loadMoreData props sample s) = fetchLog (snd (loadMoreDataAsync props sample s))"
  by (simp_all add: loadMoreData_def catch_log_frame')

lemma loadMoreData_idle:
  assumes "updateLock s \<or> bottomReached s"
  shows "updateLock (loadMoreData props sample s) = updateLock s"
    and "bottomReached (loadMoreData props sample s) = bottomReached s"
    and "pending (loadMoreData props sample s) = pending s"
    and "fetchLog (loadMoreData props sample s) = fetchLog s"
proof -
  have n: "\<not> starts_fetch props sample s"
    using assms by (auto simp add: starts_fetch_def)
  show "updateLock (loadMoreData props sample s) = updateLock s"
    and "bottomReached (loadMoreData props sample s) = bottomReached s"
    and "pending (loadMoreData props sample s) = pending s"
    and "fetchLog (loadMoreData props sample s) = fetchLog s"
    using loadMoreDataAsync_idle[OF n] by (simp_all add: loadMoreData_frame)
qed

lemma step_locked:
  assumes "updateLock s" and "\<not> is_resolved e" and "step props e s = Some s'"
  shows "fetchLog s' = fetchLog s \<and> updateLock s'"
proof (cases e)
  case (Mounted sample)
  then show ?thesis using assms by (auto simp add: computeContainerData_frame)
next
  case (NextTick sample)
  then show ?thesis using assms loadMoreData_idle[of s props sample] by auto
next
  case (Resize sample)
  then show ?thesis using assms loadMoreData_idle[of s props sample] by (auto simp add: resize_def)
next
  case (Scroll sample)
  then show ?thesis
    using assms loadMoreData_idle[of s props sample] by (auto simp add: scroll_handler_def)
next
  case (ResetGrid sample)
  then show ?thesis
    using assms loadMoreData_idle[of "s\<lparr>bottomReached := False\<rparr>" props sample]
    by (auto simp add: resetGrid_def)
next
  case (FetchResolved isLastBatch sample)
  then show ?thesis using assms by simp
next
  case (FetchRejected err)
  then show ?thesis using assms by (auto simp add: catch_log_frame split: if_splits)
qed

lemma step_stuck:
  assumes "updateLock s" and "pending s = 0" and "step props e s = Some s'"
  shows "updateLock s' \<and> pending s' = 0 \<and> fetchLog s' = fetchLog s"
proof (cases e)
  case (Mounted sample)
  then show ?thesis using assms by (auto simp add: computeContainerData_frame)
next
  case (NextTick sample)
  then show ?thesis using assms loadMoreData_idle[of s props sample] by auto
next
  case (Resize sample)
  then show ?thesis using assms loadMoreData_idle[of s props sample] by (auto simp add: resize_def)
next
  case (Scroll sample)
  then show ?thesis
    using assms loadMoreData_idle[of s props sample] by (auto simp add: scroll_handler_def)
next
  case (ResetGrid sample)
  then show ?thesis
    using assms loadMoreData_idle[of "s\<lparr>bottomReached := False\<rparr>" props sample]
    by (auto simp add: resetGrid_def)
next
  case (FetchResolved isLastBatch sample)
  then show ?thesis using assms by simp
next
  case (FetchRejected err)
  then show ?thesis using assms by simp
qed

lemma run_stuck:
  assumes "updateLock s" and "pending s = 0" and "run props evs s = Some s'"
  shows "updateLock s' \<and> pending s' = 0 \<and> fetchLog s' = fetchLog s"
  using assms
proof (induction evs arbitrary: s)
  case Nil
  then show ?case by simp
next
  case (Cons e evs)
  then obtain t where t: "step props e s = Some t" and r: "run props evs t = Some s'"
    by (auto split: option.splits)
  have st: "updateLock t \<and> pending t = 0 \<and> fetchLog t = fetchLog s"
    by (rule step_stuck[OF Cons.prems(1,2) t])
  then show ?case using Cons.IH[OF _ _ r] by simp
qed

lemma step_resolved_frame:
  assumes "step props (FetchResolved isLastBatch sample) s = Some s'"
  shows "(isLastBatch \<or> bottomReached s \<longrightarrow>
            bottomReached s' \<and> \<not> updateLock s' \<and> fetchLog s' = fetchLog s)"
proof -
  let ?t = "(if isLastBatch
             then (debugLog (debug props) ''Bottom reached'' (s\<lparr>pending := pending s - 1\<rparr>))
                    \<lparr>bottomReached := True\<rparr>
             else s\<lparr>pending := pending s - 1\<rparr>)\<lparr>updateLock := False\<rparr>"
  have s': "s' = catch_log (loadMoreDataAsync props sample ?t)"
    using assms by (auto simp add: loadMoreDataAsync_resume_def Let_def split: if_splits)
  show ?thesis
  proof
    assume a: "isLastBatch \<or> bottomReached s"
    then have b: "bottomReached ?t" by (auto simp add: debugLog_frame)
    then have n: "\<not> starts_fetch props sample ?t" by (simp add: starts_fetch_def)
    have "fetchLog ?t = fetchLog s" "\<not> updateLock ?t" by (simp_all add: debugLog_frame)
    then show "bottomReached s' \<and> \<not> updateLock s' \<and> fetchLog s' = fetchLog s"
      using loadMoreDataAsync_idle[OF n] b by (simp add: s' catch_log_frame')
  qed
qed

lemma step_done:
  assumes "bottomReached s" and "\<not> is_reset e" and "step props e s = Some s'"
  shows "bottomReached s' \<and> fetchLog s' = fetchLog s \<and> (\<not> updateLock s \<longrightarrow> \<not> updateLock s')"
proof (cases e)
  case (Mounted sample)
  then show ?thesis using assms by (auto simp add: computeContainerData_frame)
next
  case (NextTick sample)
  then show ?thesis using assms loadMoreData_idle[of s props sample] by auto
next
  case (Resize sample)
  then show ?thesis using assms loadMoreData_idle[of s props sample] by (auto simp add: resize_def)
next
  case (Scroll sample)
  then show ?thesis
    using assms loadMoreData_idle[of s props sample] by (auto simp add: scroll_handler_def)
next
  case (ResetGrid sample)
  then show ?thesis using assms by simp
next
  case (FetchResolved isLastBatch sample)
  then show ?thesis
    using assms step_resolved_frame[of props isLastBatch sample s s'] by simp
next
  case (FetchRejected err)
  then show ?thesis using assms by (auto simp add: catch_log_frame split: if_splits)
qed

lemma run_done:
  assumes "bottomReached s" and "\<not> updateLock s" and "\<forall>e \<in> set evs. \<not> is_reset e"
    and "run props evs s = Some s'"
  shows "bottomReached s' \<and> fetchLog s' = fetchLog s \<and> \<not> updateLock s'"
  using assms
proof (induction evs arbitrary: s)
  case Nil
  then show ?case by simp
next
  case (Cons e evs)
  then obtain t where t: "step props e s = Some t" and r: "run props evs t = Some s'"
    by (auto split: option.splits)
  have e: "\<not> is_reset e" and es: "\<forall>e \<in> set evs. \<not> is_reset e"
    using Cons.prems(3) by simp_all
  have st: "bottomReached t \<and> fetchLog t = fetchLog s \<and> (\<not> updateLock s \<longrightarrow> \<not> updateLock t)"
    by (rule step_done[OF Cons.prems(1) e t])
  then show ?case using Cons.IH[OF _ _ es r] Cons.prems(2) by simp
qed

lemma resetGrid_fetches:
  assumes "\<not> updateLock s"
    and "trigger_condition props (containerData (computeContainerData sample s))"
  shows "\<not> bottomReached (resetGrid props sample s)
         \<and> updateLock (resetGrid props sample s)
         \<and> fetchLog (resetGrid props sample s) = fetchLog s @ [True]"
proof -
  let ?t = "s\<lparr>bottomReached := False\<rparr>"
  have "containerData (computeContainerData sample ?t) = containerData (computeContainerData sample s)"
    by (simp add: computeContainerData_def split: option.splits)
  then have "starts_fetch props sample ?t"
    using assms by (simp add: starts_fetch_def)
  then show ?thesis
    using loadMoreDataAsync_starts[of props sample ?t]
    by (simp add: resetGrid_def loadMoreData_frame)
qed

lemma initial_trigger: "trigger_condition default_props initial_containerData"
  by (simp add: trigger_condition_def initial_containerData_def default_props_def num_def
        fl_0 fl_neg_numeral)

lemmas loader_eval = loadMoreDataAsync_def Let_def computeContainerData_def
  initial_containerData_def default_props_def num_def debugLog_def invoke_updateFunction_def
  catch_log_def loadMoreData_def loadMoreDataAsync_resume_def fl_0 fl_neg_numeral

lemma eval_initial:
  "loadMoreDataAsync default_props None initial_state = (Awaiting, loading_state)"
  by (simp add: loader_eval initial_state_def loading_state_def)

lemma eval_loading:
  "loadMoreDataAsync default_props None loading_state = (Returned, loading_state)"
  by (simp add: loader_eval loading_state_def)

lemma eval_done:
  "loadMoreDataAsync default_props None done_state = (Returned, done_state)"
  by (simp add: loader_eval done_state_def)

lemma eval_failed:
  "loadMoreDataAsync default_props None failed_state = (Returned, failed_state)"
  by (simp add: loader_eval failed_state_def)

lemma eval_resolve_true:
  "step default_props (FetchResolved True None) loading_state = Some done_state"
  by (simp add: loader_eval loading_state_def done_state_def)

lemma eval_resolve_false:
  "step default_props (FetchResolved False None) loading_state = Some reloading_state"
  by (simp add: loader_eval loading_state_def reloading_state_def)

lemma eval_reject:
  "step default_props (FetchRejected (Some ''network error'')) loading_state = Some failed_state"
  by (simp add: catch_log_def loading_state_def failed_state_def)

lemma eval_reset:
  "resetGrid default_props None done_state = reloading_state"
  by (simp add: resetGrid_def loader_eval done_state_def reloading_state_def)

lemma eval_triggers:
  "step default_props (NextTick None) initial_state = Some loading_state"
  "step default_props (Scroll None) loading_state = Some loading_state"
  "step default_props (Scroll None) done_state = Some done_state"
  "step default_props (Resize None) done_state = Some done_state"
  "step default_props (Scroll None) failed_state = Some failed_state"
  by (simp_all add: loadMoreData_def scroll_handler_def resize_def catch_log_def
        eval_initial eval_loading eval_done eval_failed)

text \<open>
  C1 (fetch failure). The rejection of the fetch ends \<open>loadMoreDataAsync\<close> at its
  \<open>await\<close>: the error is logged, and the assignment \<open>updateLock = false\<close> behind the
  \<open>await\<close> does not run. From the initial state, with the default trigger margin, the
  first evaluation starts a fetch; after its rejection the lock is still set, and a scroll
  whose trigger condition holds does not invoke the fetch function again.
\<close>

theorem rejected_fetch_keeps_lock:
  "trigger_condition default_props initial_containerData
   \<and> run default_props
        [NextTick None, FetchRejected (Some ''network error''), Scroll None] initial_state
       = Some \<lparr>updateLock = True, bottomReached = False,
               containerData = initial_containerData, pending = 0, fetchLog = [True],
               console = [''Fail to load next data batch'']\<rparr>"
proof -
  have "run default_props
          [NextTick None, FetchRejected (Some ''network error''), Scroll None] initial_state
        = Some failed_state"
    by (simp only: run.simps eval_triggers eval_reject option.case)
  then show ?thesis
    using initial_trigger by (simp only: failed_state_def)
qed

text \<open>
  C2 (single flight). An evaluation that runs while \<open>updateLock\<close> is set does not invoke
  the fetch function; an evaluation that invokes it starts from a state in which the lock
  is not set and sets the lock before the invocation (the log holds the value \<open>True\<close>
  for it); no step other than the fulfilment of the fetch invokes it while the lock is
  set; and in every state that the component reaches from its initial state at most one
  fetch is outstanding, every invocation so far having seen the lock set.
\<close>

theorem single_flight_guarantee:
  "(updateLock s \<longrightarrow>
      fst (loadMoreDataAsync props sample s) \<noteq> Awaiting
      \<and> fetchLog (snd (loadMoreDataAsync props sample s)) = fetchLog s
      \<and> pending (snd (loadMoreDataAsync props sample s)) = pending s)
   \<and> (fetchLog (snd (loadMoreDataAsync props sample t)) \<noteq> fetchLog t \<longrightarrow>
        \<not> updateLock t \<and> updateLock (snd (loadMoreDataAsync props sample t))
        \<and> fetchLog (snd (loadMoreDataAsync props sample t)) = fetchLog t @ [True])
   \<and> (updateLock s \<and> \<not> is_resolved e \<and> step props e s = Some s' \<longrightarrow>
        fetchLog s' = fetchLog s)
   \<and> (run props evs initial_state = Some s'' \<longrightarrow>
        pending s'' \<le> 1 \<and> (pending s'' = 1 \<longrightarrow> updateLock s'')
        \<and> (\<forall>b \<in> set (fetchLog s''). b))"
proof -
  have a: "fst (loadMoreDataAsync props sample s) \<noteq> Awaiting
      \<and> fetchLog (snd (loadMoreDataAsync props sample s)) = fetchLog s
      \<and> pending (snd (loadMoreDataAsync props sample s)) = pending s" if "updateLock s"
  proof -
    have "\<not> starts_fetch props sample s" using that by (simp add: starts_fetch_def)
    then show ?thesis using loadMoreDataAsync_idle by blast
  qed
  have b: "\<not> updateLock t \<and> updateLock (snd (loadMoreDataAsync props sample t))
        \<and> fetchLog (snd (loadMoreDataAsync props sample t)) = fetchLog t @ [True]"
    if "fetchLog (snd (loadMoreDataAsync props sample t)) \<noteq> fetchLog t"
  proof -
    have st: "starts_fetch props sample t"
      using that loadMoreDataAsync_idle(5)[of props sample t] by blast
    show ?thesis
      using loadMoreDataAsync_starts[OF st] starts_fetch_unlocked[OF st] by blast
  qed
  have c: "fetchLog s' = fetchLog s"
    if "updateLock s" "\<not> is_resolved e" "step props e s = Some s'"
    using step_locked[OF that] by blast
  have d: "pending s'' \<le> 1 \<and> (pending s'' = 1 \<longrightarrow> updateLock s'')
        \<and> (\<forall>b \<in> set (fetchLog s''). b)" if "run props evs initial_state = Some s''"
    using run_single_flight[OF initial_single_flight that] by (auto simp add: single_flight_def)
  show ?thesis using a b c d by blast
qed

theorem single_flight_guarantee_witness:
  "updateLock loading_state
   \<and> fetchLog (snd (loadMoreDataAsync default_props None loading_state)) = fetchLog loading_state
   \<and> fetchLog (snd (loadMoreDataAsync default_props None initial_state)) \<noteq> fetchLog initial_state
   \<and> \<not> updateLock initial_state
   \<and> fetchLog (snd (loadMoreDataAsync default_props None initial_state))
        = fetchLog initial_state @ [True]
   \<and> \<not> is_resolved (Scroll None)
   \<and> step default_props (Scroll None) loading_state = Some loading_state
   \<and> run default_props [NextTick None, Scroll None, FetchResolved False None] initial_state
        = Some reloading_state
   \<and> pending reloading_state \<le> 1"
proof -
  have l: "updateLock loading_state" by (simp add: loading_state_def)
  have ch: "fetchLog (snd (loadMoreDataAsync default_props None initial_state))
              \<noteq> fetchLog initial_state"
  proof -
    have "fetchLog (snd (loadMoreDataAsync default_props None initial_state)) = [True]"
      by (simp add: eval_initial loading_state_def)
    moreover have "fetchLog initial_state = []"
      by (simp add: initial_state_def)
    ultimately show ?thesis by simp
  qed
  have r: "run default_props [NextTick None, Scroll None, FetchResolved False None] initial_state
        = Some reloading_state"
    by (simp only: run.simps eval_triggers eval_resolve_false option.case)
  note t = single_flight_guarantee[of loading_state default_props None initial_state
      "Scroll None" loading_state "[NextTick None, Scroll None, FetchResolved False None]"
      reloading_state]
  have "fetchLog (snd (loadMoreDataAsync default_props None loading_state))
          = fetchLog loading_state"
    using t l by blast
  moreover have "\<not> updateLock initial_state
      \<and> fetchLog (snd (loadMoreDataAsync default_props None initial_state))
           = fetchLog initial_state @ [True]"
    using t ch by blast
  moreover have "pending reloading_state \<le> 1"
    using t r by blast
  ultimately show ?thesis
    using l ch r eval_triggers(2) by simp
qed

text \<open>
  C3 (terminal convergence). When the fetch is fulfilled with \<open>true\<close>, \<open>bottomReached\<close>
  is set and the re-check that follows does not invoke the fetch function; afterwards no
  sequence of steps without \<open>resetGrid\<close> invokes it or clears \<open>bottomReached\<close>.
  \<open>resetGrid\<close> clears \<open>bottomReached\<close> and evaluates the trigger again: when the trigger
  condition holds for the geometry it samples, the fetch function is invoked.
\<close>

theorem terminal_convergence:
  assumes "step props (FetchResolved True sample) s = Some s1"
    and "\<forall>e \<in> set evs. \<not> is_reset e"
    and "run props evs s1 = Some s2"
  shows "bottomReached s1 \<and> fetchLog s1 = fetchLog s
         \<and> bottomReached s2 \<and> fetchLog s2 = fetchLog s1
         \<and> resetGrid props sample' s2 = loadMoreData props sample' (s2\<lparr>bottomReached := False\<rparr>)
         \<and> (trigger_condition props (containerData (computeContainerData sample' s2)) \<longrightarrow>
              \<not> bottomReached (resetGrid props sample' s2)
              \<and> fetchLog (resetGrid props sample' s2) = fetchLog s2 @ [True])"
proof -
  have a: "bottomReached s1 \<and> \<not> updateLock s1 \<and> fetchLog s1 = fetchLog s"
    using step_resolved_frame[OF assms(1)] by simp
  then have b: "bottomReached s2 \<and> fetchLog s2 = fetchLog s1 \<and> \<not> updateLock s2"
    using run_done[OF _ _ assms(2,3)] by blast
  have c: "\<not> bottomReached (resetGrid props sample' s2)
              \<and> fetchLog (resetGrid props sample' s2) = fetchLog s2 @ [True]"
    if "trigger_condition props (containerData (computeContainerData sample' s2))"
    using resetGrid_fetches[OF _ that] b by blast
  have d: "resetGrid props sample' s2 = loadMoreData props sample' (s2\<lparr>bottomReached := False\<rparr>)"
    by (simp add: resetGrid_def)
  show ?thesis using a b c d by blast
qed

theorem terminal_convergence_witness:
  "step default_props (FetchResolved True None) loading_state = Some done_state
   \<and> \<not> is_reset (Scroll None) \<and> \<not> is_reset (Resize None)
   \<and> run default_props [Scroll None, Resize None] done_state = Some done_state
   \<and> trigger_condition default_props (containerData (computeContainerData None done_state))
   \<and> bottomReached done_state
   \<and> fetchLog done_state = fetchLog loading_state
   \<and> \<not> bottomReached (resetGrid default_props None done_state)
   \<and> fetchLog (resetGrid default_props None done_state) = fetchLog done_state @ [True]"
proof -
  have nr: "\<forall>e \<in> set [Scroll None, Resize None]. \<not> is_reset e" by simp
  have n1: "\<not> is_reset (Scroll None)" and n2: "\<not> is_reset (Resize None)" by simp_all
  have r: "run default_props [Scroll None, Resize None] done_state = Some done_state"
    by (simp only: run.simps eval_triggers option.case)
  have tc: "trigger_condition default_props (containerData (computeContainerData None done_state))"
    using initial_trigger by (simp add: computeContainerData_def done_state_def)
  show ?thesis
    using terminal_convergence[OF eval_resolve_true nr r, of None] n1 n2 r tc eval_resolve_true
    by blast
qed

section \<open>Properties of config derivation and of the windower\<close>

lemma computeConfigData_columnCount:
  "columnCount (computeConfigData (Some cd) (Some its))
     = \<lfloor>fl ((case elementSize cd of None \<Rightarrow> 0 | Some es \<Rightarrow> ElementSize.width es) / 250)\<rfloor>"
  by (simp add: computeConfigData_def Let_def getColumnCount_def js_floor_def num_def
        split: option.splits)

text \<open>
  C4 (column count). The derived column count is \<open>floor(width / 250)\<close> without a lower
  bound: for the container the component starts with (an element of width 0), for an
  element 200 pixels wide and for an element of unknown size, config derivation yields 0
  columns.
\<close>

theorem narrow_element_zero_columns:
  "columnCount (computeConfigData (Some initial_containerData) (Some [tile ''a'' 100 1 False])) = 0
   \<and> columnCount (computeConfigData (Some narrow_containerData) (Some [tile ''a'' 100 1 False])) = 0
   \<and> columnCount (computeConfigData (Some (narrow_containerData\<lparr>elementSize := None\<rparr>))
         (Some [tile ''a'' 100 1 False])) = 0"
proof -
  have "\<lfloor>fl (200 / 250)\<rfloor> = 0"
    using floor_fl_div[of 200 250] by simp
  then show ?thesis
    by (simp add: computeConfigData_columnCount initial_containerData_def
          narrow_containerData_def fl_0)
qed



end
